theory Spec2Isabelle
  imports Complex_Main "HOL-Library.AList" "HOL-Library.Sublist"
begin

section \<open>Python values\<close>

text \<open>
  The pipeline of \<^verbatim>\<open>etl_ship_data_with_schema.py\<close> works on untyped Python values: the
  dictionary literal decoded from a spreadsheet cell can hold anything
  \<^verbatim>\<open>ast.literal_eval\<close> produces. A Python float is modelled by the number it
  denotes (a rational, every double is one) or one of the three special values; the
  last step of a float operation, rounding the exact result to the nearest double, is
  not modelled. A dict is an association list in insertion order, looked up with
  \<open>map_of\<close>.
\<close>

datatype pyfloat = Fin rat | PosInf | NegInf | NaN

datatype pyval =
    PyNone
  | PyBool bool
  | PyInt int
  | PyFloat pyfloat
  | PyStr string
  | PyBytes string
  | PyComplex
  | PyEllipsis
  | PyList "pyval list"
  | PyTuple "pyval list"
  | PySet "pyval list"
  | PyDict "(pyval \<times> pyval) list"

text \<open>
  Exceptions, by class. Every member is a subclass of \<^verbatim>\<open>Exception\<close>, which is what
  \<^verbatim>\<open>except Exception\<close> takes; interrupts of the interpreter are outside the model.
  \<open>RuntimeError n\<close> is the error the Bulk Loader raises, \<open>n\<close> the count its message
  carries.
\<close>

datatype py_error =
    ValueError
  | TypeError
  | KeyError
  | OverflowError
  | SyntaxError
  | MemoryError
  | RecursionError
  | JSONDecodeError
  | OSError
  | IntegrityError
  | OperationalError
  | InterfaceError
  | InFailedSqlTransaction
  | RuntimeError nat

section \<open>Timestamps\<close>

text \<open>
  A naive \<^verbatim>\<open>datetime\<close>, as \<^verbatim>\<open>pd.to_datetime\<close> gives it and as the driver stores it
  in a \<^verbatim>\<open>TIMESTAMP\<close> column. The calendar functions follow the standard library
  (\<^verbatim>\<open>_ymd2ord\<close>, \<^verbatim>\<open>weekday\<close>, \<^verbatim>\<open>_isoweek1monday\<close>, \<^verbatim>\<open>isocalendar\<close>); a
  \<^verbatim>\<open>datetime\<close> always has a month from 1 to 12, the table is read there only.
\<close>

record timestamp =
  year :: int
  month :: int
  day :: int
  hour :: int
  minute :: int
  second :: int
  microsecond :: int

definition is_leap :: "int \<Rightarrow> bool" where
  "is_leap y = (y mod 4 = 0 \<and> (y mod 100 \<noteq> 0 \<or> y mod 400 = 0))"

definition days_before_year :: "int \<Rightarrow> int" where
  "days_before_year yr = (let y = yr - 1 in y * 365 + y div 4 - y div 100 + y div 400)"

definition DAYS_BEFORE_MONTH :: "int list" where
  "DAYS_BEFORE_MONTH = [- 1, 0, 31, 59, 90, 120, 151, 181, 212, 243, 273, 304, 334]"

definition days_before_month :: "int \<Rightarrow> int \<Rightarrow> int" where
  "days_before_month yr mon =
     (if 1 \<le> mon \<and> mon \<le> 12 then DAYS_BEFORE_MONTH ! nat mon else 0)
     + (if mon > 2 \<and> is_leap yr then 1 else 0)"

definition ymd2ord :: "int \<Rightarrow> int \<Rightarrow> int \<Rightarrow> int" where
  "ymd2ord yr mon d = days_before_year yr + days_before_month yr mon + d"

definition toordinal :: "timestamp \<Rightarrow> int" where
  "toordinal ts = ymd2ord (year ts) (month ts) (day ts)"

text \<open>Monday is 0, Sunday is 6.\<close>

definition weekday :: "timestamp \<Rightarrow> int" where
  "weekday ts = (toordinal ts + 6) mod 7"

definition isoweek1monday :: "int \<Rightarrow> int" where
  "isoweek1monday yr =
     (let firstday = ymd2ord yr 1 1;
          firstweekday = (firstday + 6) mod 7;
          week1monday = firstday - firstweekday
      in if firstweekday > 3 then week1monday + 7 else week1monday)"

text \<open>\<^verbatim>\<open>isocalendar()\<close>: ISO year, ISO week number, ISO weekday.\<close>

definition isocalendar :: "timestamp \<Rightarrow> int \<times> int \<times> int" where
  "isocalendar ts =
     (let yr = year ts;
          week1monday = isoweek1monday yr;
          today = toordinal ts;
          week = (today - week1monday) div 7;
          wd = (today - week1monday) mod 7
      in if week < 0 then
           (let week1monday' = isoweek1monday (yr - 1)
            in (yr - 1, (today - week1monday') div 7 + 1, (today - week1monday') mod 7 + 1))
         else if week \<ge> 52 \<and> today \<ge> isoweek1monday (yr + 1) then (yr + 1, 1, wd + 1)
         else (yr, week + 1, wd + 1))"

section \<open>Library functions and Python operators\<close>

text \<open>
  Library functions the code calls and the repository does not define: the string
  grammar of \<^verbatim>\<open>float(s)\<close> (\<open>None\<close> is its ValueError),
  \<^verbatim>\<open>ast.literal_eval\<close>, and \<^verbatim>\<open>pd.to_datetime\<close> on a string (\<open>Inr None\<close> is
  \<^verbatim>\<open>NaT\<close>). They are parameters of the model.
\<close>

record py_env =
  str_to_float :: "string \<Rightarrow> pyfloat option"
  literal_eval :: "string \<Rightarrow> py_error + pyval"
  to_datetime :: "string \<Rightarrow> py_error + timestamp option"

text \<open>Comparison of floats: every comparison with NaN is false.\<close>

fun float_le :: "pyfloat \<Rightarrow> pyfloat \<Rightarrow> bool" where
  "float_le NaN y = False"
| "float_le x NaN = False"
| "float_le NegInf y = True"
| "float_le x PosInf = True"
| "float_le (Fin a) (Fin b) = (a \<le> b)"
| "float_le PosInf y = False"
| "float_le x NegInf = False"

text \<open>
  \<^verbatim>\<open>float(value)\<close>. An int too large for a double raises OverflowError (the
  bound is the first integer that rounds to $2^{1024}$); below the bound the model keeps
  the integer exact where Python rounds integers beyond $2^{53}$.
\<close>

definition float_overflow_bound :: int where
  "float_overflow_bound = 2 ^ 1024 - 2 ^ 970"

fun py_float :: "py_env \<Rightarrow> pyval \<Rightarrow> py_error + pyfloat" where
  "py_float env (PyFloat x) = Inr x"
| "py_float env (PyInt i) =
     (if float_overflow_bound \<le> \<bar>i\<bar> then Inl OverflowError else Inr (Fin (of_int i)))"
| "py_float env (PyBool b) = Inr (Fin (if b then 1 else 0))"
| "py_float env (PyStr s) =
     (case str_to_float env s of None \<Rightarrow> Inl ValueError | Some x \<Rightarrow> Inr x)"
| "py_float env (PyBytes s) =
     (case str_to_float env s of None \<Rightarrow> Inl ValueError | Some x \<Rightarrow> Inr x)"
| "py_float env v = Inl TypeError"

text \<open>
  \<^verbatim>\<open>round(x, ndigits)\<close> on a float: the decimal at \<open>ndigits\<close> places nearest to
  the exact value of \<open>x\<close>, a tie going to the even last digit; NaN and the infinities
  are returned as they are.
\<close>

definition round_half_even :: "rat \<Rightarrow> int" where
  "round_half_even y =
     (let f = \<lfloor>y\<rfloor>; d = y - of_int f
      in if d < 1 / 2 then f
         else if 1 / 2 < d then f + 1
         else if even f then f else f + 1)"

definition round_to :: "rat \<Rightarrow> nat \<Rightarrow> rat" where
  "round_to x p = of_int (round_half_even (x * 10 ^ p)) / 10 ^ p"

fun py_round :: "pyfloat \<Rightarrow> nat \<Rightarrow> py_error + pyfloat" where
  "py_round (Fin x) p = Inr (Fin (round_to x p))"
| "py_round NaN p = Inr NaN"
| "py_round PosInf p = Inr PosInf"
| "py_round NegInf p = Inr NegInf"

text \<open>\<^verbatim>\<open>key in container\<close> and \<^verbatim>\<open>container[key]\<close> for a string key.\<close>

fun is_substring :: "string \<Rightarrow> string \<Rightarrow> bool" where
  "is_substring k [] = (k = [])"
| "is_substring k (c # cs) = (prefix k (c # cs) \<or> is_substring k cs)"

fun py_contains :: "pyval \<Rightarrow> string \<Rightarrow> py_error + bool" where
  "py_contains (PyDict al) k = Inr (map_of al (PyStr k) \<noteq> None)"
| "py_contains (PyList xs) k = Inr (PyStr k \<in> set xs)"
| "py_contains (PyTuple xs) k = Inr (PyStr k \<in> set xs)"
| "py_contains (PySet xs) k = Inr (PyStr k \<in> set xs)"
| "py_contains (PyStr s) k = Inr (is_substring k s)"
| "py_contains v k = Inl TypeError"

fun py_getitem :: "pyval \<Rightarrow> string \<Rightarrow> py_error + pyval" where
  "py_getitem (PyDict al) k =
     (case map_of al (PyStr k) of None \<Rightarrow> Inl KeyError | Some v \<Rightarrow> Inr v)"
| "py_getitem v k = Inl TypeError"

section \<open>Field Validator: \<^verbatim>\<open>validate_sensor_data\<close>\<close>

text \<open>
  The rule table: source key, then target field, minimum, maximum and precision, in the
  order of the source. The bounds \<^verbatim>\<open>999999.99\<close> and \<^verbatim>\<open>9999.99\<close> are the decimals
  the source writes.
\<close>

type_synonym rule = "string \<times> rat \<times> rat \<times> nat"

definition validation_rules :: "(string \<times> rule) list" where
  "validation_rules =
    [(''LAT'', (''latitude'', - 90, 90, 6)),
     (''LON'', (''longitude'', - 180, 180, 6)),
     (''WINDIR'', (''wind_direction'', 0, 360, 2)),
     (''WINSPE'', (''wind_speed'', 0, 200, 2)),
     (''AIR_TEMP_AUT'', (''air_temperature'', - 50, 60, 2)),
     (''CTNK0_LIQ_VOL'', (''tank0_liquid_volume'', 0, 99999999 / 100, 2)),
     (''CTNK0_MAX_VOL'', (''tank0_max_volume'', 0, 99999999 / 100, 2)),
     (''CTNK0_MAX_PERC'', (''tank0_percentage'', 0, 100, 2)),
     (''CTNK1_LIQ_VOL'', (''tank1_liquid_volume'', 0, 99999999 / 100, 2)),
     (''CTNK1_MAX_VOL'', (''tank1_max_volume'', 0, 99999999 / 100, 2)),
     (''CTNK1_PERC'', (''tank1_percentage'', 0, 100, 2)),
     (''CTNK2_LIQ_VOL'', (''tank2_liquid_volume'', 0, 99999999 / 100, 2)),
     (''CTNK2_MAX_VOL'', (''tank2_max_volume'', 0, 99999999 / 100, 2)),
     (''CTNK2_PERC'', (''tank2_percentage'', 0, 100, 2)),
     (''CTNK3_LIQ_VOL'', (''tank3_liquid_volume'', 0, 99999999 / 100, 2)),
     (''CTNK3_MAX_VOL'', (''tank3_max_volume'', 0, 99999999 / 100, 2)),
     (''CTNK3_PERC'', (''tank3_percentage'', 0, 100, 2)),
     (''CTNK4_LIQ_VOL'', (''tank4_liquid_volume'', 0, 99999999 / 100, 2)),
     (''CTNK4_MAX_VOL'', (''tank4_max_volume'', 0, 99999999 / 100, 2)),
     (''CTNK4_PERC'', (''tank4_percentage'', 0, 100, 2)),
     (''CTNK0_VAP_PRES'', (''tank0_vapor_pressure'', 0, 999999 / 100, 2)),
     (''CTNK0_VAP_TEMP'', (''tank0_vapor_temperature'', - 200, 200, 2)),
     (''CTNK1_VAP_PRES'', (''tank1_vapor_pressure'', 0, 999999 / 100, 2)),
     (''CTNK1_VAP_TEMP'', (''tank1_vapor_temperature'', - 200, 200, 2)),
     (''CTNK2_VAP_PRES'', (''tank2_vapor_pressure'', 0, 999999 / 100, 2)),
     (''CTNK2_VAP_TEMP'', (''tank2_vapor_temperature'', - 200, 200, 2)),
     (''CTNK3_VAP_PRES'', (''tank3_vapor_pressure'', 0, 999999 / 100, 2)),
     (''CTNK3_VAP_TEMP'', (''tank3_vapor_temperature'', - 200, 200, 2)),
     (''CTNK4_VAP_PRES'', (''tank4_vapor_pressure'', 0, 999999 / 100, 2)),
     (''CTNK4_VAP_TEMP'', (''tank4_vapor_temperature'', - 200, 200, 2))]"

definition source_keys :: "string list" where
  "source_keys = map fst validation_rules"

definition target_fields :: "string list" where
  "target_fields = map (fst \<circ> snd) validation_rules"

text \<open>
  The loop state is the pair \<^verbatim>\<open>(validated_data, validation_errors)\<close>. The body of
  the \<^verbatim>\<open>try\<close> of one iteration: \<^verbatim>\<open>continue\<close> leaves the state as it is or counts an
  error, an exception is \<open>Inl\<close>. The log lines and \<^verbatim>\<open>row_identifier\<close>, which only
  they use, are left out.
\<close>

type_synonym vstate = "(string \<times> pyfloat) list \<times> nat"

fun validate_try :: "py_env \<Rightarrow> pyval \<Rightarrow> string \<Rightarrow> rule \<Rightarrow> vstate \<Rightarrow> py_error + vstate" where
  "validate_try env data_dict source_key (target_field, min_val, max_val, precision)
       (validated_data, validation_errors) =
     (case py_getitem data_dict source_key of
        Inl e \<Rightarrow> Inl e
      | Inr v \<Rightarrow>
          if v = PyNone \<or> v = PyFloat NaN then Inr (validated_data, validation_errors)
          else
            (case py_float env v of
               Inl e \<Rightarrow> Inl e
             | Inr numeric_value \<Rightarrow>
                 if \<not> (float_le (Fin min_val) numeric_value \<and> float_le numeric_value (Fin max_val))
                 then Inr (validated_data, validation_errors + 1)
                 else
                   (case py_round numeric_value precision of
                      Inl e \<Rightarrow> Inl e
                    | Inr rounded_value \<Rightarrow>
                        Inr (AList.update source_key rounded_value validated_data,
                             validation_errors))))"

text \<open>
  One iteration: the membership test stands outside the \<^verbatim>\<open>try\<close>, so its TypeError
  leaves the function; the handler takes ValueError and TypeError only.
\<close>

definition validate_field :: "py_env \<Rightarrow> pyval \<Rightarrow> string \<Rightarrow> rule \<Rightarrow> vstate \<Rightarrow> py_error + vstate" where
  "validate_field env data_dict source_key r st =
     (case py_contains data_dict source_key of
        Inl e \<Rightarrow> Inl e
      | Inr False \<Rightarrow> Inr st
      | Inr True \<Rightarrow>
          (case validate_try env data_dict source_key r st of
             Inl e \<Rightarrow>
               if e = ValueError \<or> e = TypeError then Inr (fst st, snd st + 1) else Inl e
           | Inr st' \<Rightarrow> Inr st'))"

fun validate_loop :: "py_env \<Rightarrow> pyval \<Rightarrow> (string \<times> rule) list \<Rightarrow> vstate \<Rightarrow> py_error + vstate" where
  "validate_loop env data_dict [] st = Inr st"
| "validate_loop env data_dict ((source_key, r) # rules) st =
     (case validate_field env data_dict source_key r st of
        Inl e \<Rightarrow> Inl e
      | Inr st' \<Rightarrow> validate_loop env data_dict rules st')"

definition validate_sensor_data :: "py_env \<Rightarrow> pyval \<Rightarrow> py_error + (string \<times> pyfloat) list" where
  "validate_sensor_data env data_dict =
     (case validate_loop env data_dict validation_rules ([], 0) of
        Inl e \<Rightarrow> Inl e
      | Inr st \<Rightarrow> Inr (fst st))"

section \<open>Record Parser: \<^verbatim>\<open>parse_data_column\<close>\<close>

text \<open>\<^verbatim>\<open>data_str.strip('"').replace('""', '"')\<close>.\<close>

definition strip_quotes :: "string \<Rightarrow> string" where
  "strip_quotes s =
     rev (dropWhile (\<lambda>c. c = CHR 0x22) (rev (dropWhile (\<lambda>c. c = CHR 0x22) s)))"

fun replace_double_quotes :: "string \<Rightarrow> string" where
  "replace_double_quotes (c1 # c2 # cs) =
     (if c1 = CHR 0x22 \<and> c2 = CHR 0x22 then CHR 0x22 # replace_double_quotes cs
      else c1 # replace_double_quotes (c2 # cs))"
| "replace_double_quotes cs = cs"

text \<open>
  The body of the \<^verbatim>\<open>try\<close>: a string is cleaned and decoded, a dict is taken as it
  is, anything else gives the empty mapping at once. The decoded value goes to the
  validator whatever its type; an empty result is returned as the empty mapping.
\<close>

definition validate_parsed :: "py_env \<Rightarrow> pyval \<Rightarrow> py_error + (string \<times> pyfloat) list" where
  "validate_parsed env parsed_data =
     (case validate_sensor_data env parsed_data of
        Inl e \<Rightarrow> Inl e
      | Inr validated_data \<Rightarrow> if validated_data = [] then Inr [] else Inr validated_data)"

fun parse_try :: "py_env \<Rightarrow> pyval \<Rightarrow> py_error + (string \<times> pyfloat) list" where
  "parse_try env (PyStr s) =
     (case literal_eval env (replace_double_quotes (strip_quotes s)) of
        Inl e \<Rightarrow> Inl e
      | Inr parsed_data \<Rightarrow> validate_parsed env parsed_data)"
| "parse_try env (PyDict al) = validate_parsed env (PyDict al)"
| "parse_try env v = Inr []"

text \<open>
  The three handlers in the order of the source; the last one takes every exception.
\<close>

definition parse_data_column :: "py_env \<Rightarrow> pyval \<Rightarrow> py_error + (string \<times> pyfloat) list" where
  "parse_data_column env data_str =
     (case parse_try env data_str of
        Inl e \<Rightarrow>
          if e = JSONDecodeError then Inr []
          else if e = ValueError then Inr []
          else Inr []
      | Inr validated_data \<Rightarrow> Inr validated_data)"

section \<open>File Processor: \<^verbatim>\<open>process_xlsx_file\<close>\<close>

text \<open>
  A spreadsheet cell is missing (\<^verbatim>\<open>pd.notna\<close> is false) or has a value, kept as the
  text \<^verbatim>\<open>str\<close> gives for it. A row is the mapping from column names to cells. A file
  has a name, the outcome of \<^verbatim>\<open>stat\<close> and the outcome of reading its sheet
  \<^verbatim>\<open>DATA\<close>.
\<close>

datatype cell = NA | Cell string

type_synonym row = "(string \<times> cell) list"

record xlsx_file =
  file_name :: string
  stat_size :: "py_error + nat"
  data_sheet :: "py_error + row list"

text \<open>
  A processed row is the dict the source builds: the ship identifier, the timestamp
  string, the creation timestamp or \<^verbatim>\<open>None\<close>, the thirty measures by destination
  field (a number or \<^verbatim>\<open>None\<close>), and the name of the file. The frame returned is the
  list of these rows.
\<close>

record processed_row =
  id_ship :: string
  datetime :: string
  datetime_created :: "string option"
  measures :: "(string \<times> pyfloat option) list"
  data_source :: string

text \<open>
  The characters \<^verbatim>\<open>str.strip()\<close> removes, among the code points a \<open>char\<close> holds:
  the ASCII white space, the four separators 0x1C to 0x1F, NEL (0x85) and the no-break
  space (0xA0).
\<close>

definition is_space :: "char \<Rightarrow> bool" where
  "is_space c = (c \<in> set [CHR '' '', CHR 0x09, CHR 0x0A, CHR 0x0B, CHR 0x0C, CHR 0x0D,
                            CHR 0x1C, CHR 0x1D, CHR 0x1E, CHR 0x1F, CHR 0x85, CHR 0xA0])"

definition py_strip :: "string \<Rightarrow> string" where
  "py_strip s = rev (dropWhile is_space (rev (dropWhile is_space s)))"

definition required_columns :: "string list" where
  "required_columns = [''id_ship'', ''datetime'', ''data'']"

definition validate_input_data :: "row \<Rightarrow> string list \<Rightarrow> bool" where
  "validate_input_data row_data required =
     (let missing_columns = filter (\<lambda>col. map_of row_data col = None) required
      in missing_columns = [])"

fun row_getitem :: "row \<Rightarrow> string \<Rightarrow> py_error + cell" where
  "row_getitem r col = (case map_of r col of None \<Rightarrow> Inl KeyError | Some c \<Rightarrow> Inr c)"

text \<open>\<^verbatim>\<open>str(x).strip() if pd.notna(x) else None\<close>, and the same without the strip.\<close>

fun stripped_text :: "cell \<Rightarrow> string option" where
  "stripped_text NA = None"
| "stripped_text (Cell s) = Some (py_strip s)"

fun plain_text :: "cell \<Rightarrow> string option" where
  "plain_text NA = None"
| "plain_text (Cell s) = Some s"

fun truthy :: "string option \<Rightarrow> bool" where
  "truthy None = False"
| "truthy (Some s) = (s \<noteq> [])"

text \<open>
  The destination fields with the source key each is read from
  (\<^verbatim>\<open>data_dict.get(key)\<close>), in the order of the source.
\<close>

definition field_mapping :: "(string \<times> string) list" where
  "field_mapping =
    [(''latitude'', ''LAT''),
     (''longitude'', ''LON''),
     (''wind_direction'', ''WINDIR''),
     (''wind_speed'', ''WINSPE''),
     (''air_temperature'', ''AIR_TEMP_AUT''),
     (''tank0_liquid_volume'', ''CTNK0_LIQ_VOL''),
     (''tank0_max_volume'', ''CTNK0_MAX_VOL''),
     (''tank0_percentage'', ''CTNK0_MAX_PERC''),
     (''tank1_liquid_volume'', ''CTNK1_LIQ_VOL''),
     (''tank1_max_volume'', ''CTNK1_MAX_VOL''),
     (''tank1_percentage'', ''CTNK1_PERC''),
     (''tank2_liquid_volume'', ''CTNK2_LIQ_VOL''),
     (''tank2_max_volume'', ''CTNK2_MAX_VOL''),
     (''tank2_percentage'', ''CTNK2_PERC''),
     (''tank3_liquid_volume'', ''CTNK3_LIQ_VOL''),
     (''tank3_max_volume'', ''CTNK3_MAX_VOL''),
     (''tank3_percentage'', ''CTNK3_PERC''),
     (''tank4_liquid_volume'', ''CTNK4_LIQ_VOL''),
     (''tank4_max_volume'', ''CTNK4_MAX_VOL''),
     (''tank4_percentage'', ''CTNK4_PERC''),
     (''tank0_vapor_pressure'', ''CTNK0_VAP_PRES''),
     (''tank0_vapor_temperature'', ''CTNK0_VAP_TEMP''),
     (''tank1_vapor_pressure'', ''CTNK1_VAP_PRES''),
     (''tank1_vapor_temperature'', ''CTNK1_VAP_TEMP''),
     (''tank2_vapor_pressure'', ''CTNK2_VAP_PRES''),
     (''tank2_vapor_temperature'', ''CTNK2_VAP_TEMP''),
     (''tank3_vapor_pressure'', ''CTNK3_VAP_PRES''),
     (''tank3_vapor_temperature'', ''CTNK3_VAP_TEMP''),
     (''tank4_vapor_pressure'', ''CTNK4_VAP_PRES''),
     (''tank4_vapor_temperature'', ''CTNK4_VAP_TEMP'')]"

definition make_processed_row ::
  "string \<Rightarrow> string \<Rightarrow> string option \<Rightarrow> (string \<times> pyfloat) list \<Rightarrow> string \<Rightarrow> processed_row" where
  "make_processed_row ship_id datetime_str created data_dict source_name =
     \<lparr> id_ship = ship_id,
       datetime = datetime_str,
       datetime_created = created,
       measures = map (\<lambda>(field, key). (field, map_of data_dict key)) field_mapping,
       data_source = source_name \<rparr>"

text \<open>
  The body of the \<^verbatim>\<open>try\<close> of one row. \<open>Inr None\<close> is a \<^verbatim>\<open>continue\<close> after
  \<^verbatim>\<open>validation_errors += 1\<close>, \<open>Inr (Some r)\<close> the row appended, \<open>Inl e\<close> an exception,
  which the handler of the row counts as a processing error.
\<close>

definition process_row_try :: "py_env \<Rightarrow> string \<Rightarrow> row \<Rightarrow> py_error + processed_row option" where
  "process_row_try env source_name r =
     (if \<not> validate_input_data r required_columns then Inr None
      else
        (case row_getitem r ''id_ship'' of Inl e \<Rightarrow> Inl e | Inr c_ship \<Rightarrow>
        (case row_getitem r ''datetime'' of Inl e \<Rightarrow> Inl e | Inr c_datetime \<Rightarrow>
        (case row_getitem r ''data'' of Inl e \<Rightarrow> Inl e | Inr c_data \<Rightarrow>
           (let ship_id = stripped_text c_ship;
                datetime_str = stripped_text c_datetime;
                data_str = plain_text c_data
            in if \<not> (truthy ship_id \<and> truthy datetime_str \<and> truthy data_str) then Inr None
               else
                 (case parse_data_column env (PyStr (the data_str)) of
                    Inl e \<Rightarrow> Inl e
                  | Inr data_dict \<Rightarrow>
                      if data_dict = [] then Inr None
                      else
                        (case row_getitem r ''datetime_created'' of
                           Inl e \<Rightarrow> Inl e
                         | Inr c_created \<Rightarrow>
                             Inr (Some (make_processed_row (the ship_id) (the datetime_str)
                                          (stripped_text c_created) data_dict source_name)))))))))"

text \<open>
  The loop over the rows, with the three accumulators of the source:
  \<^verbatim>\<open>processed_rows\<close>, \<^verbatim>\<open>validation_errors\<close>, \<^verbatim>\<open>processing_errors\<close>.
\<close>

fun process_rows ::
  "py_env \<Rightarrow> string \<Rightarrow> row list \<Rightarrow> processed_row list \<times> nat \<times> nat \<Rightarrow> processed_row list \<times> nat \<times> nat" where
  "process_rows env source_name [] acc = acc"
| "process_rows env source_name (r # rows) (processed_rows, validation_errors, processing_errors) =
     (case process_row_try env source_name r of
        Inr None \<Rightarrow>
          process_rows env source_name rows
            (processed_rows, validation_errors + 1, processing_errors)
      | Inr (Some processed_row) \<Rightarrow>
          process_rows env source_name rows
            (processed_rows @ [processed_row], validation_errors, processing_errors)
      | Inl e \<Rightarrow>
          process_rows env source_name rows
            (processed_rows, validation_errors, processing_errors + 1))"

text \<open>
  The statistics the function logs after the loop: total rows, processed count,
  validation errors, processing errors.
\<close>

definition file_statistics :: "py_env \<Rightarrow> string \<Rightarrow> row list \<Rightarrow> nat \<times> nat \<times> nat \<times> nat" where
  "file_statistics env source_name df =
     (case process_rows env source_name df ([], 0, 0) of
        (processed_rows, validation_errors, processing_errors) \<Rightarrow>
          (length df, length processed_rows, validation_errors, processing_errors))"

text \<open>
  \<^verbatim>\<open>pd.DataFrame(processed_rows)\<close>: a column of measures that holds a number in some
  row is a float column, in which the \<^verbatim>\<open>None\<close> of every other row becomes NaN; a
  column with no number keeps its \<^verbatim>\<open>None\<close>.
\<close>

definition column_has_number :: "processed_row list \<Rightarrow> string \<Rightarrow> bool" where
  "column_has_number rows field =
     list_ex (\<lambda>r. case map_of (measures r) field of
                      Some (Some x) \<Rightarrow> True
                    | _ \<Rightarrow> False) rows"

definition to_dataframe :: "processed_row list \<Rightarrow> processed_row list" where
  "to_dataframe rows =
     map (\<lambda>r. r\<lparr>measures :=
            map (\<lambda>(field, v).
                   (field, case v of
                             None \<Rightarrow> if column_has_number rows field then Some NaN else None
                           | Some x \<Rightarrow> Some x))
                (measures r)\<rparr>) rows"

text \<open>
  \<^verbatim>\<open>stat\<close> is called before the \<^verbatim>\<open>try\<close>, so its error leaves the function; a failure
  to read the sheet gives the empty frame.
\<close>

definition process_xlsx_file :: "py_env \<Rightarrow> xlsx_file \<Rightarrow> py_error + processed_row list" where
  "process_xlsx_file env f =
     (case stat_size f of
        Inl e \<Rightarrow> Inl e
      | Inr sz \<Rightarrow>
          (case data_sheet f of
             Inl e \<Rightarrow> Inr []
           | Inr df \<Rightarrow>
               Inr (to_dataframe (fst (process_rows env (file_name f) df ([], 0, 0))))))"

section \<open>The star schema\<close>

text \<open>
  Modelled from the spec: the schema file \<^verbatim>\<open>create_postgresql_schema.sql\<close> is not
  among the sources. The spec gives \<^verbatim>\<open>d_ship(ship_id PK)\<close>,
  \<^verbatim>\<open>d_calendar(datetime_id PK, date, year, month, day, hour, minute, quarter,
  week_of_year, day_of_week, is_weekend)\<close> and \<^verbatim>\<open>f_data(ship_id FK, datetime_id FK,
  30 sensor columns, data_source, original_datetime, UNIQUE(ship_id, datetime_id))\<close>.
  A table is the list of its rows in insertion order; the columns of \<^verbatim>\<open>d_calendar\<close>
  carry the prefix \<open>cal_\<close>, those of \<^verbatim>\<open>f_data\<close> the prefix \<open>f_\<close>.
\<close>

record calendar_row =
  cal_datetime_id :: timestamp
  cal_date :: "int \<times> int \<times> int"
  cal_year :: int
  cal_month :: int
  cal_day :: int
  cal_hour :: int
  cal_minute :: int
  cal_quarter :: int
  cal_week_of_year :: int
  cal_day_of_week :: int
  cal_is_weekend :: bool

record fact_row =
  f_ship_id :: string
  f_datetime_id :: timestamp
  f_measures :: "pyfloat option list"
  f_data_source :: string
  f_original_datetime :: string

record db =
  d_ship :: "string list"
  d_calendar :: "calendar_row list"
  f_data :: "fact_row list"

text \<open>
  The statements of the source, each a function from the tables to an error or a result
  and the new tables. A primary key refuses a second row with the same key; the bulk
  insert skips a row whose pair (ship key, calendar key) is already there, also when an
  earlier row of the same statement brought it, and the foreign keys are checked on the
  rows it adds.
\<close>

definition select_ship :: "string \<Rightarrow> db \<Rightarrow> py_error + string option \<times> db" where
  "select_ship ship_id t = Inr (find (\<lambda>s. s = ship_id) (d_ship t), t)"

definition insert_ship :: "string \<Rightarrow> db \<Rightarrow> py_error + unit \<times> db" where
  "insert_ship ship_id t =
     (if ship_id \<in> set (d_ship t) then Inl IntegrityError
      else Inr ((), t\<lparr>d_ship := d_ship t @ [ship_id]\<rparr>))"

text \<open>The parameters of the lookup in \<^verbatim>\<open>d_calendar\<close>, and its condition.\<close>

definition calendar_minute :: "timestamp \<Rightarrow> int \<times> int \<times> int \<times> int \<times> int" where
  "calendar_minute ts = (year ts, month ts, day ts, hour ts, minute ts)"

definition same_minute :: "timestamp \<Rightarrow> calendar_row \<Rightarrow> bool" where
  "same_minute ts r =
     (cal_year r = year ts \<and> cal_month r = month ts \<and> cal_day r = day ts \<and>
      cal_hour r = hour ts \<and> cal_minute r = minute ts)"

definition select_calendar :: "timestamp \<Rightarrow> db \<Rightarrow> py_error + timestamp option \<times> db" where
  "select_calendar ts t =
     Inr (map_option cal_datetime_id (find (same_minute ts) (d_calendar t)), t)"

definition insert_calendar :: "calendar_row \<Rightarrow> db \<Rightarrow> py_error + unit \<times> db" where
  "insert_calendar r t =
     (if cal_datetime_id r \<in> set (map cal_datetime_id (d_calendar t))
      then Inl IntegrityError
      else Inr ((), t\<lparr>d_calendar := d_calendar t @ [r]\<rparr>))"

definition fact_key :: "fact_row \<Rightarrow> string \<times> timestamp" where
  "fact_key r = (f_ship_id r, f_datetime_id r)"

fun on_conflict_do_nothing :: "fact_row list \<Rightarrow> fact_row list \<Rightarrow> fact_row list" where
  "on_conflict_do_nothing [] tbl = tbl"
| "on_conflict_do_nothing (r # rs) tbl =
     on_conflict_do_nothing rs
       (if fact_key r \<in> set (map fact_key tbl) then tbl else tbl @ [r])"

definition references_ok :: "db \<Rightarrow> fact_row \<Rightarrow> bool" where
  "references_ok t r =
     (f_ship_id r \<in> set (d_ship t) \<and>
      f_datetime_id r \<in> set (map cal_datetime_id (d_calendar t)))"

definition insert_facts :: "fact_row list \<Rightarrow> db \<Rightarrow> py_error + unit \<times> db" where
  "insert_facts bulk_data t =
     (let tbl = on_conflict_do_nothing bulk_data (f_data t)
      in if list_all (references_ok t) (drop (length (f_data t)) tbl)
         then Inr ((), t\<lparr>f_data := tbl\<rparr>)
         else Inl IntegrityError)"

text \<open>
  What the constraints and the resolver keep true of the tables: no ship twice, the
  derived columns of a calendar row are those of its key, no pair (ship key, calendar
  key) twice among the facts.
\<close>

definition calendar_consistent :: "db \<Rightarrow> bool" where
  "calendar_consistent t = list_all (\<lambda>r. same_minute (cal_datetime_id r) r) (d_calendar t)"

definition facts_unique :: "db \<Rightarrow> bool" where
  "facts_unique t = distinct (map fact_key (f_data t))"

section \<open>The connection\<close>

text \<open>
  The one connection of the run: the tables as its open transaction sees them, the
  tables as last committed, whether the transaction is aborted (a statement failed and
  no rollback came yet), and the faults of the environment: the calls of the driver
  are numbered by \<open>clock\<close>, and a call whose number is in \<open>faults\<close> fails (a lost
  connection, a timeout). With \<open>faults = []\<close> only the constraints make a call fail.
\<close>

record conn =
  tables :: db
  saved :: db
  aborted :: bool
  clock :: nat
  faults :: "nat list"

definition faulty :: "conn \<Rightarrow> bool" where
  "faulty c = (clock c \<in> set (faults c))"

definition tick :: "conn \<Rightarrow> conn" where
  "tick c = c\<lparr>clock := Suc (clock c)\<rparr>"

definition open_cursor :: "conn \<Rightarrow> (py_error + unit) \<times> conn" where
  "open_cursor c = (if faulty c then (Inl InterfaceError, tick c) else (Inr (), tick c))"

definition execute :: "(db \<Rightarrow> py_error + 'a \<times> db) \<Rightarrow> conn \<Rightarrow> (py_error + 'a) \<times> conn" where
  "execute stmt c =
     (if faulty c then (Inl OperationalError, (tick c)\<lparr>aborted := True\<rparr>)
      else if aborted c then (Inl InFailedSqlTransaction, tick c)
      else
        (case stmt (tables c) of
           Inl e \<Rightarrow> (Inl e, (tick c)\<lparr>aborted := True\<rparr>)
         | Inr (r, t) \<Rightarrow> (Inr r, (tick c)\<lparr>tables := t\<rparr>)))"

definition commit :: "conn \<Rightarrow> (py_error + unit) \<times> conn" where
  "commit c =
     (if faulty c then (Inl OperationalError, tick c)
      else if aborted c then (Inr (), (tick c)\<lparr>tables := saved c, aborted := False\<rparr>)
      else (Inr (), (tick c)\<lparr>saved := tables c\<rparr>))"

definition rollback :: "conn \<Rightarrow> (py_error + unit) \<times> conn" where
  "rollback c =
     (if faulty c then (Inl OperationalError, tick c)
      else (Inr (), (tick c)\<lparr>tables := saved c, aborted := False\<rparr>))"

text \<open>
  \<^verbatim>\<open>get_db_cursor\<close>: an exception of \<^verbatim>\<open>conn.cursor()\<close> or of the body is answered
  by a rollback, whose own failure is swallowed, and raised again.
\<close>

definition get_db_cursor :: "(conn \<Rightarrow> (py_error + 'a) \<times> conn) \<Rightarrow> conn \<Rightarrow> (py_error + 'a) \<times> conn" where
  "get_db_cursor body c =
     (case open_cursor c of
        (Inl e, c1) \<Rightarrow> (Inl e, snd (rollback c1))
      | (Inr u, c1) \<Rightarrow>
          (case body c1 of
             (Inl e, c2) \<Rightarrow> (Inl e, snd (rollback c2))
           | (Inr r, c2) \<Rightarrow> (Inr r, c2)))"

section \<open>Dimension Resolver\<close>

definition get_or_create_ship_id :: "conn \<Rightarrow> string \<Rightarrow> (py_error + string) \<times> conn" where
  "get_or_create_ship_id c ship_id =
     get_db_cursor (\<lambda>c1.
       case execute (select_ship ship_id) c1 of
         (Inl e, c2) \<Rightarrow> (Inl e, c2)
       | (Inr (Some found), c2) \<Rightarrow> (Inr found, c2)
       | (Inr None, c2) \<Rightarrow>
           (case execute (insert_ship ship_id) c2 of
              (Inl e, c3) \<Rightarrow> (Inl e, c3)
            | (Inr u, c3) \<Rightarrow>
                (case commit c3 of
                   (Inl e, c4) \<Rightarrow> (Inl e, c4)
                 | (Inr u', c4) \<Rightarrow> (Inr ship_id, c4)))) c"

text \<open>The row the source inserts on a miss, from the timestamp it was given.\<close>

definition new_calendar_row :: "timestamp \<Rightarrow> calendar_row" where
  "new_calendar_row ts =
     (let quarter = (month ts - 1) div 3 + 1;
          week_of_year = fst (snd (isocalendar ts));
          day_of_week = weekday ts + 1;
          is_weekend = (day_of_week \<ge> 6)
      in \<lparr> cal_datetime_id = ts,
           cal_date = (year ts, month ts, day ts),
           cal_year = year ts,
           cal_month = month ts,
           cal_day = day ts,
           cal_hour = hour ts,
           cal_minute = minute ts,
           cal_quarter = quarter,
           cal_week_of_year = week_of_year,
           cal_day_of_week = day_of_week,
           cal_is_weekend = is_weekend \<rparr>)"

definition get_or_create_datetime_id :: "conn \<Rightarrow> timestamp \<Rightarrow> (py_error + timestamp) \<times> conn" where
  "get_or_create_datetime_id c ts =
     get_db_cursor (\<lambda>c1.
       case execute (select_calendar ts) c1 of
         (Inl e, c2) \<Rightarrow> (Inl e, c2)
       | (Inr (Some found), c2) \<Rightarrow> (Inr found, c2)
       | (Inr None, c2) \<Rightarrow>
           (case execute (insert_calendar (new_calendar_row ts)) c2 of
              (Inl e, c3) \<Rightarrow> (Inl e, c3)
            | (Inr u, c3) \<Rightarrow>
                (case commit c3 of
                   (Inl e, c4) \<Rightarrow> (Inl e, c4)
                 | (Inr u', c4) \<Rightarrow> (Inr ts, c4)))) c"

text \<open>
  The spec's words for the key of a timestamp: the timestamp truncated to the minute.
\<close>

definition spec_truncate_to_minute :: "timestamp \<Rightarrow> timestamp" where
  "spec_truncate_to_minute ts = ts\<lparr>second := 0, microsecond := 0\<rparr>"

section \<open>Bulk Loader\<close>

text \<open>
  The tuple of one record for the bulk insert: the two keys, the thirty measures in the
  order of the destination fields (\<^verbatim>\<open>row.get(field)\<close>, \<^verbatim>\<open>None\<close> for a field the
  row has not), the file name and the timestamp string of the row.
\<close>

definition bulk_record :: "string \<Rightarrow> timestamp \<Rightarrow> processed_row \<Rightarrow> fact_row" where
  "bulk_record ship_id datetime_id r =
     \<lparr> f_ship_id = ship_id,
       f_datetime_id = datetime_id,
       f_measures = map (\<lambda>field. case map_of (measures r) field of None \<Rightarrow> None | Some v \<Rightarrow> v)
                        (map fst field_mapping),
       f_data_source = data_source r,
       f_original_datetime = datetime r \<rparr>"

text \<open>
  The body of the \<^verbatim>\<open>try\<close> of one row of \<^verbatim>\<open>prepare_bulk_data\<close>: \<open>Inr None\<close> is the
  \<^verbatim>\<open>continue\<close> on \<^verbatim>\<open>NaT\<close>. The handler of the row takes every exception and goes
  on with the next row.
\<close>

definition prepare_row_try :: "py_env \<Rightarrow> processed_row \<Rightarrow> conn \<Rightarrow> (py_error + fact_row option) \<times> conn" where
  "prepare_row_try env r c =
     (case to_datetime env (datetime r) of
        Inl e \<Rightarrow> (Inl e, c)
      | Inr None \<Rightarrow> (Inr None, c)
      | Inr (Some ts) \<Rightarrow>
          (case get_or_create_ship_id c (id_ship r) of
             (Inl e, c1) \<Rightarrow> (Inl e, c1)
           | (Inr ship_id, c1) \<Rightarrow>
               (case get_or_create_datetime_id c1 ts of
                  (Inl e, c2) \<Rightarrow> (Inl e, c2)
                | (Inr datetime_id, c2) \<Rightarrow>
                    (Inr (Some (bulk_record ship_id datetime_id r)), c2))))"

fun prepare_loop :: "py_env \<Rightarrow> processed_row list \<Rightarrow> fact_row list \<Rightarrow> conn \<Rightarrow> fact_row list \<times> conn" where
  "prepare_loop env [] bulk_data c = (bulk_data, c)"
| "prepare_loop env (r # rows) bulk_data c =
     (case prepare_row_try env r c of
        (Inr (Some bulk_rec), c') \<Rightarrow> prepare_loop env rows (bulk_data @ [bulk_rec]) c'
      | (Inr None, c') \<Rightarrow> prepare_loop env rows bulk_data c'
      | (Inl e, c') \<Rightarrow> prepare_loop env rows bulk_data c')"

definition prepare_bulk_data :: "py_env \<Rightarrow> processed_row list \<Rightarrow> conn \<Rightarrow> fact_row list \<times> conn" where
  "prepare_bulk_data env processed_df c = prepare_loop env processed_df [] c"

text \<open>
  \<^verbatim>\<open>range(0, len(processed_df), batch_size)\<close> and
  \<^verbatim>\<open>processed_df.iloc[batch_start:batch_end]\<close>.
\<close>

definition batch_size :: nat where
  "batch_size = 1000"

definition batch_starts :: "nat \<Rightarrow> nat list" where
  "batch_starts n = map (\<lambda>i. i * batch_size) [0..<(n + batch_size - 1) div batch_size]"

definition batch_df :: "processed_row list \<Rightarrow> nat \<Rightarrow> processed_row list" where
  "batch_df processed_df batch_start =
     (let batch_end = min (batch_start + batch_size) (length processed_df)
      in take (batch_end - batch_start) (drop batch_start processed_df))"

text \<open>
  One batch. The result is the exception that leaves the loop, if any, with the value
  of \<^verbatim>\<open>records_loaded\<close> at that moment. The two handlers around the bulk insert both
  \<^verbatim>\<open>continue\<close>, which skips the commit; the commit stands outside the \<^verbatim>\<open>with\<close>.
\<close>

definition load_batch :: "py_env \<Rightarrow> processed_row list \<Rightarrow> nat \<Rightarrow> conn \<Rightarrow> (py_error option \<times> nat) \<times> conn" where
  "load_batch env batch records_loaded c =
     (case prepare_bulk_data env batch c of
        (bulk_data, c1) \<Rightarrow>
          if bulk_data = [] then ((None, records_loaded), c1)
          else
            (case get_db_cursor (\<lambda>c2.
                    case execute (insert_facts bulk_data) c2 of
                      (Inl e, c3) \<Rightarrow> (Inr None, c3)
                    | (Inr u, c3) \<Rightarrow> (Inr (Some (records_loaded + length bulk_data)), c3)) c1 of
               (Inl e, c4) \<Rightarrow> ((Some e, records_loaded), c4)
             | (Inr None, c4) \<Rightarrow> ((None, records_loaded), c4)
             | (Inr (Some n), c4) \<Rightarrow>
                 (case commit c4 of
                    (Inl e, c5) \<Rightarrow> ((Some e, n), c5)
                  | (Inr u, c5) \<Rightarrow> ((None, n), c5))))"

fun load_batches :: "py_env \<Rightarrow> processed_row list list \<Rightarrow> nat \<Rightarrow> conn \<Rightarrow> (py_error option \<times> nat) \<times> conn" where
  "load_batches env [] records_loaded c = ((None, records_loaded), c)"
| "load_batches env (batch # batches) records_loaded c =
     (case load_batch env batch records_loaded c of
        ((Some e, n), c') \<Rightarrow> ((Some e, n), c')
      | ((None, n), c') \<Rightarrow> load_batches env batches n c')"

text \<open>
  The outer handler: a rollback, whose own failure is logged and swallowed, then the
  \<^verbatim>\<open>RuntimeError\<close> whose message carries \<^verbatim>\<open>records_loaded\<close>.
\<close>

definition load_data_to_postgres_bulk :: "py_env \<Rightarrow> processed_row list \<Rightarrow> conn \<Rightarrow> (py_error + nat) \<times> conn" where
  "load_data_to_postgres_bulk env processed_df c =
     (if processed_df = [] then (Inr 0, c)
      else
        (case load_batches env
                (map (batch_df processed_df) (batch_starts (length processed_df))) 0 c of
           ((None, records_loaded), c') \<Rightarrow> (Inr records_loaded, c')
         | ((Some e, records_loaded), c') \<Rightarrow>
             (Inl (RuntimeError records_loaded), snd (rollback c'))))"


section \<open>Pipeline Orchestrator: \<^verbatim>\<open>etl\<close>\<close>




section \<open>Notions for a load without faults\<close>

text \<open>
  What the proofs about the Bulk Loader speak of. The key the calendar gives a
  timestamp: the key of the first row of its minute, or the timestamp itself when there
  is none (it becomes the key of the row then created). The record a row contributes to
  the bulk insert, under the keys the tables give. A row is settled when its ship and its
  minute are in the dimensions; a batch is absorbed when its rows are settled and the
  pairs of their records are among the facts. Tables grow by appending rows.
\<close>

definition calendar_key :: "db \<Rightarrow> timestamp \<Rightarrow> timestamp" where
  "calendar_key t ts =
     (case find (same_minute ts) (d_calendar t) of
        Some r \<Rightarrow> cal_datetime_id r
      | None \<Rightarrow> ts)"

definition fact_of :: "py_env \<Rightarrow> db \<Rightarrow> processed_row \<Rightarrow> fact_row option" where
  "fact_of env t r =
     (case to_datetime env (datetime r) of
        Inl e \<Rightarrow> None
      | Inr None \<Rightarrow> None
      | Inr (Some ts) \<Rightarrow> Some (bulk_record (id_ship r) (calendar_key t ts) r))"

definition settled :: "py_env \<Rightarrow> db \<Rightarrow> processed_row \<Rightarrow> bool" where
  "settled env t r =
     (case to_datetime env (datetime r) of
        Inl e \<Rightarrow> True
      | Inr None \<Rightarrow> True
      | Inr (Some ts) \<Rightarrow>
          id_ship r \<in> set (d_ship t) \<and> find (same_minute ts) (d_calendar t) \<noteq> None)"

definition absorbed :: "py_env \<Rightarrow> db \<Rightarrow> processed_row list \<Rightarrow> bool" where
  "absorbed env t batch =
     (list_all (settled env t) batch \<and>
      list_all (\<lambda>x. fact_key x \<in> set (map fact_key (f_data t)))
        (List.map_filter (fact_of env t) batch))"

definition grows :: "db \<Rightarrow> db \<Rightarrow> bool" where
  "grows t t' =
     (prefix (d_ship t) (d_ship t') \<and> prefix (d_calendar t) (d_calendar t') \<and>
      prefix (f_data t) (f_data t'))"

definition good :: "conn \<Rightarrow> bool" where
  "good c = (faults c = [] \<and> \<not> aborted c \<and> calendar_consistent (tables c))"

section \<open>Examples\<close>

text \<open>Library functions for the examples: they know a few texts and reject the rest.\<close>

definition demo_env :: py_env where
  "demo_env =
     \<lparr> str_to_float = (\<lambda>s. if s = ''45.5'' then Some (Fin (91 / 2)) else None),
       literal_eval = (\<lambda>s.
         if s = ''{'LAT': 45.123456789, 'LON': 190, 'WINDIR': None}''
         then Inr (PyDict [(PyStr ''LAT'', PyFloat (Fin (45123456789 / 1000000000))),
                           (PyStr ''LON'', PyInt 190),
                           (PyStr ''WINDIR'', PyNone)])
         else if s = ''{'LAT': 95.2}''
         then Inr (PyDict [(PyStr ''LAT'', PyFloat (Fin (476 / 5)))])
         else if s = ''17'' then Inr (PyInt 17)
         else Inl SyntaxError),
       to_datetime = (\<lambda>s.
         if s = ''2024-01-06 10:15:30''
         then Inr (Some \<lparr> year = 2024, month = 1, day = 6, hour = 10, minute = 15,
                           second = 30, microsecond = 0 \<rparr>)
         else if s = ''2024-01-06 10:15:45''
         then Inr (Some \<lparr> year = 2024, month = 1, day = 6, hour = 10, minute = 15,
                           second = 45, microsecond = 0 \<rparr>)
         else if s = ''NaT'' then Inr None
         else Inl ValueError) \<rparr>"

text \<open>A sheet for the examples: a good row, a row out of range, a row with no ship.\<close>

definition demo_row :: "cell \<Rightarrow> string \<Rightarrow> string \<Rightarrow> row" where
  "demo_row ship datetime_str data_str =
     [(''id_ship'', ship), (''datetime'', Cell datetime_str),
      (''datetime_created'', Cell ''2024-01-02 10:00:00''), (''data'', Cell data_str)]"

definition demo_sheet :: "row list" where
  "demo_sheet =
     [demo_row (Cell '' S1 '') ''2024-01-06 10:15:30''
        ''{'LAT': 45.123456789, 'LON': 190, 'WINDIR': None}'',
      demo_row (Cell ''S1'') ''2024-01-06 10:15:45'' ''{'LAT': 95.2}'',
      demo_row NA ''2024-01-06 10:15:45''
        ''{'LAT': 45.123456789, 'LON': 190, 'WINDIR': None}'']"

definition demo_file :: xlsx_file where
  "demo_file = \<lparr> file_name = ''a.xlsx'', stat_size = Inr 4096, data_sheet = Inr demo_sheet \<rparr>"

text \<open>An empty store, a connection to it with given faults, a Saturday.\<close>

definition empty_db :: db where
  "empty_db = \<lparr> d_ship = [], d_calendar = [], f_data = [] \<rparr>"

definition fresh_conn :: "nat list \<Rightarrow> conn" where
  "fresh_conn fs = \<lparr> tables = empty_db, saved = empty_db, aborted = False, clock = 0, faults = fs \<rparr>"

definition demo_ts :: "int \<Rightarrow> int \<Rightarrow> timestamp" where
  "demo_ts mi s = \<lparr> year = 2024, month = 1, day = 6, hour = 10, minute = mi,
                     second = s, microsecond = 0 \<rparr>"


definition demo_frame :: "processed_row list" where
  "demo_frame =
     [make_processed_row ''S1'' ''2024-01-06 10:15:30'' None [(''LAT'', Fin 45)] ''a.xlsx'',
      make_processed_row ''S1'' ''2024-01-06 10:15:45'' None [(''LAT'', Fin 46)] ''a.xlsx'',
      make_processed_row ''S2'' ''NaT'' None [(''LAT'', Fin 47)] ''a.xlsx'']"


section \<open>Rounding stays inside an interval whose bounds are decimals\<close>

lemma floor_rat_numeral [simp]:
  "\<lfloor>numeral a / numeral b :: rat\<rfloor> = numeral a div numeral b"
  using floor_divide_of_int_eq [of "numeral a" "numeral b", where ?'a = rat] by simp

lemma floor_rat_neg_numeral [simp]:
  "\<lfloor>- (numeral a / numeral b) :: rat\<rfloor> = - numeral a div numeral b"
  using floor_divide_of_int_eq [of "- numeral a" "numeral b", where ?'a = rat] by simp

lemma round_half_even_ge: "of_int n \<le> y \<Longrightarrow> n \<le> round_half_even y"
proof -
  assume "of_int n \<le> y"
  then have "n \<le> \<lfloor>y\<rfloor>" by (simp add: le_floor_iff)
  then show ?thesis by (simp add: round_half_even_def Let_def)
qed

lemma round_half_even_le: "y \<le> of_int n \<Longrightarrow> round_half_even y \<le> n"
proof (cases "y = of_int n")
  case True
  then show ?thesis by (simp add: round_half_even_def Let_def)
next
  case False
  assume "y \<le> of_int n"
  with False have "y < of_int n" by simp
  then have "\<lfloor>y\<rfloor> < n" by (simp add: floor_less_iff)
  then show ?thesis by (simp add: round_half_even_def Let_def)
qed

lemma round_to_bounds:
  assumes "lo \<le> x" and "x \<le> hi" and "lo * 10 ^ p \<in> \<int>" and "hi * 10 ^ p \<in> \<int>"
  shows "lo \<le> round_to x p \<and> round_to x p \<le> hi"
proof -
  let ?s = "(10::rat) ^ p"
  have s: "0 < ?s" by simp
  obtain a b where a: "lo * ?s = of_int a" and b: "hi * ?s = of_int b"
    using assms(3,4) by (auto elim!: Ints_cases)
  have "of_int a \<le> x * ?s" using assms(1) a s by (metis mult_le_cancel_right_pos)
  then have 1: "a \<le> round_half_even (x * ?s)" by (rule round_half_even_ge)
  have "x * ?s \<le> of_int b" using assms(2) b s by (metis mult_le_cancel_right_pos)
  then have 2: "round_half_even (x * ?s) \<le> b" by (rule round_half_even_le)
  have "lo = of_int a / ?s" using a s by (simp add: field_simps)
  moreover have "hi = of_int b / ?s" using b s by (simp add: field_simps)
  ultimately show ?thesis using 1 2 s
    unfolding round_to_def by (simp add: divide_le_cancel)
qed

section \<open>The rule table\<close>

lemma rules_distinct: "distinct (map fst validation_rules)"
  by (simp add: validation_rules_def)

lemma rules_on_grid:
  "list_all (\<lambda>(k, t, lo, hi, p). lo * 10 ^ p \<in> \<int> \<and> hi * 10 ^ p \<in> \<int>) validation_rules"
  by (simp add: validation_rules_def)

lemma mapping_follows_rules:
  "list_all (\<lambda>(k, t, lo, hi, p). map_of field_mapping t = Some k) validation_rules"
  by (simp add: validation_rules_def field_mapping_def)

lemma targets_not_sources: "list_all (\<lambda>t. t \<notin> set source_keys) target_fields"
  by (simp add: validation_rules_def source_keys_def target_fields_def)

section \<open>Field Validator\<close>

lemma validate_try_cases:
  assumes "validate_try env d k (t, lo, hi, p) (vd, n) = Inr (vd', n')"
  shows "vd' = vd \<or>
         (\<exists>raw x. py_getitem d k = Inr raw \<and> py_float env raw = Inr (Fin x) \<and>
                  lo \<le> x \<and> x \<le> hi \<and> vd' = AList.update k (Fin (round_to x p)) vd)"
proof (cases "py_getitem d k")
  case (Inl e)
  with assms show ?thesis by simp
next
  case (Inr raw)
  show ?thesis
  proof (cases "py_float env raw")
    case (Inl e)
    with assms Inr show ?thesis by (simp split: if_splits)
  next
    case num: (Inr x)
    show ?thesis
    proof (cases x)
      case (Fin q)
      with assms Inr num show ?thesis by (auto split: if_splits)
    qed (use assms Inr num in \<open>auto split: if_splits\<close>)
  qed
qed

lemma validate_field_cases:
  assumes "validate_field env d k (t, lo, hi, p) (vd, n) = Inr (vd', n')"
  shows "vd' = vd \<or>
         (\<exists>raw x. py_getitem d k = Inr raw \<and> py_float env raw = Inr (Fin x) \<and>
                  lo \<le> x \<and> x \<le> hi \<and> vd' = AList.update k (Fin (round_to x p)) vd)"
  using assms validate_try_cases [of env d k t lo hi p vd n vd' n']
  by (auto simp: validate_field_def split: sum.splits bool.splits if_splits)

lemma validate_loop_sound:
  assumes "validate_loop env d rs st = Inr st'"
      and "set rs \<subseteq> set validation_rules"
      and "\<forall>k v. map_of (fst st) k = Some v \<longrightarrow>
             (\<exists>t lo hi p raw x. (k, t, lo, hi, p) \<in> set validation_rules \<and>
                py_getitem d k = Inr raw \<and> py_float env raw = Inr (Fin x) \<and>
                lo \<le> x \<and> x \<le> hi \<and> v = Fin (round_to x p))"
  shows "\<forall>k v. map_of (fst st') k = Some v \<longrightarrow>
             (\<exists>t lo hi p raw x. (k, t, lo, hi, p) \<in> set validation_rules \<and>
                py_getitem d k = Inr raw \<and> py_float env raw = Inr (Fin x) \<and>
                lo \<le> x \<and> x \<le> hi \<and> v = Fin (round_to x p))"
  using assms
proof (induction rs arbitrary: st)
  case Nil
  then show ?case by simp
next
  case (Cons a rs)
  obtain k t lo hi p where a: "a = (k, t, lo, hi, p)" by (cases a) auto
  obtain vd n where st: "st = (vd, n)" by (cases st) auto
  from Cons.prems(1) a obtain st1 where
    f: "validate_field env d k (t, lo, hi, p) st = Inr st1" and
    l: "validate_loop env d rs st1 = Inr st'"
    by (auto split: sum.splits)
  obtain vd1 n1 where st1: "st1 = (vd1, n1)" by (cases st1) auto
  have mem: "(k, t, lo, hi, p) \<in> set validation_rules"
    using Cons.prems(2) a by simp
  have "\<forall>k v. map_of (fst st1) k = Some v \<longrightarrow>
             (\<exists>t lo hi p raw x. (k, t, lo, hi, p) \<in> set validation_rules \<and>
                py_getitem d k = Inr raw \<and> py_float env raw = Inr (Fin x) \<and>
                lo \<le> x \<and> x \<le> hi \<and> v = Fin (round_to x p))"
    using validate_field_cases [OF f [unfolded st st1]] Cons.prems(3) mem
    unfolding st st1
    by (fastforce simp: update_Some_unfold)
  with Cons.IH [OF l] Cons.prems(2) show ?case by simp
qed

lemma validated_entry:
  assumes "validate_sensor_data env data_dict = Inr validated_data"
      and "map_of validated_data k = Some v"
  obtains t lo hi p raw x where
    "(k, t, lo, hi, p) \<in> set validation_rules"
    "py_getitem data_dict k = Inr raw" "py_float env raw = Inr (Fin x)"
    "lo \<le> x" "x \<le> hi" "v = Fin (round_to x p)"
proof -
  from assms(1) obtain st where
    l: "validate_loop env data_dict validation_rules ([], 0) = Inr st" and
    vd: "validated_data = fst st"
    by (auto simp: validate_sensor_data_def split: sum.splits)
  have "\<forall>k v. map_of (fst st) k = Some v \<longrightarrow>
             (\<exists>t lo hi p raw x. (k, t, lo, hi, p) \<in> set validation_rules \<and>
                py_getitem data_dict k = Inr raw \<and> py_float env raw = Inr (Fin x) \<and>
                lo \<le> x \<and> x \<le> hi \<and> v = Fin (round_to x p))"
    by (rule validate_loop_sound [OF l]) simp_all
  with assms(2) vd that show thesis by blast
qed

text \<open>
  Claim C1. Whatever the raw mapping, every value of the mapping that
  \<^verbatim>\<open>validate_sensor_data\<close> returns stands under a key of the rule table, is the
  numeric value of the raw entry under that key rounded to the precision the table
  declares for it, and lies in the inclusive interval the table declares for it.
\<close>

theorem validated_values_in_range_and_rounded:
  assumes "validate_sensor_data env data_dict = Inr validated_data"
      and "map_of validated_data k = Some v"
  shows "\<exists>target lo hi p raw x.
           map_of validation_rules k = Some (target, lo, hi, p) \<and>
           py_getitem data_dict k = Inr raw \<and> py_float env raw = Inr (Fin x) \<and>
           v = Fin (round_to x p) \<and> lo \<le> round_to x p \<and> round_to x p \<le> hi"
proof -
  from assms obtain t lo hi p raw x where
    mem: "(k, t, lo, hi, p) \<in> set validation_rules" and
    raw: "py_getitem data_dict k = Inr raw" "py_float env raw = Inr (Fin x)" and
    rng: "lo \<le> x" "x \<le> hi" and v: "v = Fin (round_to x p)"
    by (rule validated_entry)
  have "map_of validation_rules k = Some (t, lo, hi, p)"
    using mem rules_distinct by simp
  moreover have "lo * 10 ^ p \<in> \<int> \<and> hi * 10 ^ p \<in> \<int>"
    using rules_on_grid mem by (auto simp: list_all_iff)
  then have "lo \<le> round_to x p \<and> round_to x p \<le> hi"
    using rng by (simp add: round_to_bounds)
  ultimately show ?thesis using raw v by blast
qed

theorem validated_values_in_range_and_rounded_witness:
  "validate_sensor_data demo_env
     (PyDict [(PyStr ''LAT'', PyFloat (Fin (45123456789 / 1000000000))),
              (PyStr ''LON'', PyInt 190),
              (PyStr ''WINDIR'', PyNone),
              (PyStr ''WINSPE'', PyStr ''45.5'')])
     = Inr [(''LAT'', Fin (45123457 / 1000000)), (''WINSPE'', Fin (91 / 2))] \<and>
   map_of [(''LAT'', Fin (45123457 / 1000000)), (''WINSPE'', Fin (91 / 2))] ''LAT''
     = Some (Fin (45123457 / 1000000)) \<and>
   (\<exists>target lo hi p raw x.
      map_of validation_rules ''LAT'' = Some (target, lo, hi, p) \<and>
      py_getitem (PyDict [(PyStr ''LAT'', PyFloat (Fin (45123456789 / 1000000000))),
              (PyStr ''LON'', PyInt 190),
              (PyStr ''WINDIR'', PyNone),
              (PyStr ''WINSPE'', PyStr ''45.5'')]) ''LAT'' = Inr raw \<and>
      py_float demo_env raw = Inr (Fin x) \<and>
      Fin (45123457 / 1000000) = Fin (round_to x p) \<and>
      lo \<le> round_to x p \<and> round_to x p \<le> hi)"
proof -
  let ?d = "PyDict [(PyStr ''LAT'', PyFloat (Fin (45123456789 / 1000000000))),
              (PyStr ''LON'', PyInt 190),
              (PyStr ''WINDIR'', PyNone),
              (PyStr ''WINSPE'', PyStr ''45.5'')]"
  have run: "validate_sensor_data demo_env ?d
     = Inr [(''LAT'', Fin (45123457 / 1000000)), (''WINSPE'', Fin (91 / 2))]"
    by (simp add: validate_sensor_data_def validation_rules_def validate_field_def
        demo_env_def float_overflow_bound_def round_to_def round_half_even_def Let_def)
  have look: "map_of [(''LAT'', Fin (45123457 / 1000000)), (''WINSPE'', Fin (91 / 2))] ''LAT''
     = Some (Fin (45123457 / 1000000))" by simp
  from validated_values_in_range_and_rounded [OF run look] run look
  show ?thesis by blast
qed

text \<open>
  Claim C2. When the numeric value of the raw entry under a key of the rule table is
  not inside the interval the table declares, the returned mapping has no entry for
  that field at all, neither under the source key nor under the target name: the value
  is dropped, no bound is stored in its place.
\<close>

theorem out_of_range_dropped_not_clamped:
  assumes "validate_sensor_data env data_dict = Inr validated_data"
      and "map_of validation_rules k = Some (target, lo, hi, p)"
      and "py_getitem data_dict k = Inr raw"
      and "py_float env raw = Inr x"
      and "\<not> (float_le (Fin lo) x \<and> float_le x (Fin hi))"
  shows "map_of validated_data k = None \<and> map_of validated_data target = None"
proof
  show "map_of validated_data k = None"
  proof (rule ccontr)
    assume "map_of validated_data k \<noteq> None"
    then obtain v where v: "map_of validated_data k = Some v" by blast
    from assms(1) v obtain t' lo' hi' p' raw' x' where
      mem: "(k, t', lo', hi', p') \<in> set validation_rules" and
      raw: "py_getitem data_dict k = Inr raw'" "py_float env raw' = Inr (Fin x')" and
      rng: "lo' \<le> x'" "x' \<le> hi'"
      by (rule validated_entry)
    from mem rules_distinct have "map_of validation_rules k = Some (t', lo', hi', p')"
      by simp
    with assms(2) have "lo' = lo" "hi' = hi" by simp_all
    moreover from raw assms(3,4) have "x = Fin x'" by simp
    ultimately show False using rng assms(5) by simp
  qed
next
  show "map_of validated_data target = None"
  proof (rule ccontr)
    assume "map_of validated_data target \<noteq> None"
    then obtain v where v: "map_of validated_data target = Some v" by blast
    from assms(1) v obtain t' lo' hi' p' where
      "(target, t', lo', hi', p') \<in> set validation_rules"
      by (rule validated_entry)
    then have "target \<in> set source_keys"
      by (force simp: source_keys_def)
    moreover from assms(2) have "(k, target, lo, hi, p) \<in> set validation_rules"
      by (rule map_of_SomeD)
    then have "target \<in> set target_fields"
      by (force simp: target_fields_def)
    ultimately show False using targets_not_sources by (simp add: list_all_iff)
  qed
qed

theorem out_of_range_dropped_not_clamped_witness:
  "validate_sensor_data demo_env (PyDict [(PyStr ''LAT'', PyFloat (Fin (476 / 5)))]) = Inr [] \<and>
   map_of validation_rules ''LAT'' = Some (''latitude'', - 90, 90, 6) \<and>
   py_getitem (PyDict [(PyStr ''LAT'', PyFloat (Fin (476 / 5)))]) ''LAT''
     = Inr (PyFloat (Fin (476 / 5))) \<and>
   py_float demo_env (PyFloat (Fin (476 / 5))) = Inr (Fin (476 / 5)) \<and>
   \<not> (float_le (Fin (- 90)) (Fin (476 / 5)) \<and> float_le (Fin (476 / 5)) (Fin 90)) \<and>
   map_of [] ''LAT'' = (None :: pyfloat option) \<and>
   map_of [] ''latitude'' = (None :: pyfloat option)"
proof -
  have run: "validate_sensor_data demo_env (PyDict [(PyStr ''LAT'', PyFloat (Fin (476 / 5)))])
      = Inr []"
    by (simp add: validate_sensor_data_def validation_rules_def validate_field_def)
  have rule: "map_of validation_rules ''LAT'' = Some (''latitude'', - 90, 90, 6)"
    by (simp add: validation_rules_def)
  have raw: "py_getitem (PyDict [(PyStr ''LAT'', PyFloat (Fin (476 / 5)))]) ''LAT''
     = Inr (PyFloat (Fin (476 / 5)))" by simp
  have num: "py_float demo_env (PyFloat (Fin (476 / 5))) = Inr (Fin (476 / 5))" by simp
  have out: "\<not> (float_le (Fin (- 90)) (Fin (476 / 5)) \<and> float_le (Fin (476 / 5)) (Fin 90))"
    by simp
  from out_of_range_dropped_not_clamped [OF run rule raw num out] run rule raw num out
  show ?thesis by simp
qed

text \<open>
  Claim C7 (as stated, refuted). The claim says the keys of the validated mapping are
  the target names of the rule table. The validator stores each accepted value under
  the source key: for the raw mapping \<^verbatim>\<open>{'LAT': 45}\<close> the result is
  \<^verbatim>\<open>{'LAT': 45}\<close>, the key \<^verbatim>\<open>LAT\<close> is no target name, and \<^verbatim>\<open>latitude\<close> is
  no key of the result.
\<close>

theorem validated_keys_not_target_names_counterexample:
  "validate_sensor_data demo_env (PyDict [(PyStr ''LAT'', PyInt 45)]) = Inr [(''LAT'', Fin 45)] \<and>
   ''LAT'' \<notin> set target_fields \<and>
   map_of [(''LAT'', Fin 45)] ''latitude'' = None"
  by (simp add: validate_sensor_data_def validation_rules_def validate_field_def
      target_fields_def float_overflow_bound_def round_to_def round_half_even_def)

text \<open>
  Claim C7 (amended). Every key of the validated mapping is a source key of the rule
  table that the raw mapping holds, and none is a target name. The target name comes
  with the File Processor: the destination field it fills from that source key is the
  target name the rule table declares for the key.
\<close>

theorem validated_keys_are_source_keys:
  assumes "validate_sensor_data env data_dict = Inr validated_data"
      and "map_of validated_data k = Some v"
  shows "k \<in> set source_keys \<and> k \<notin> set target_fields \<and> py_contains data_dict k = Inr True \<and>
         (\<exists>target lo hi p. map_of validation_rules k = Some (target, lo, hi, p) \<and>
            map_of field_mapping target = Some k)"
proof -
  from assms obtain t lo hi p raw where
    mem: "(k, t, lo, hi, p) \<in> set validation_rules" and
    raw: "py_getitem data_dict k = Inr raw"
    by (rule validated_entry)
  from mem have src: "k \<in> set source_keys" by (force simp: source_keys_def)
  moreover have "k \<notin> set target_fields"
    using src targets_not_sources by (auto simp: list_all_iff)
  moreover have "py_contains data_dict k = Inr True"
    using raw by (cases data_dict) (auto split: option.splits)
  moreover have "map_of validation_rules k = Some (t, lo, hi, p)"
    using mem rules_distinct by simp
  moreover have "map_of field_mapping t = Some k"
    using mem mapping_follows_rules by (auto simp: list_all_iff)
  ultimately show ?thesis by simp
qed

theorem validated_keys_are_source_keys_witness:
  "validate_sensor_data demo_env (PyDict [(PyStr ''WINSPE'', PyStr ''45.5'')])
     = Inr [(''WINSPE'', Fin (91 / 2))] \<and>
   map_of [(''WINSPE'', Fin (91 / 2))] ''WINSPE'' = Some (Fin (91 / 2)) \<and>
   ''WINSPE'' \<in> set source_keys \<and> ''WINSPE'' \<notin> set target_fields \<and>
   py_contains (PyDict [(PyStr ''WINSPE'', PyStr ''45.5'')]) ''WINSPE'' = Inr True \<and>
   (\<exists>target lo hi p. map_of validation_rules ''WINSPE'' = Some (target, lo, hi, p) \<and>
      map_of field_mapping target = Some ''WINSPE'')"
proof -
  have run: "validate_sensor_data demo_env (PyDict [(PyStr ''WINSPE'', PyStr ''45.5'')])
     = Inr [(''WINSPE'', Fin (91 / 2))]"
    by (simp add: validate_sensor_data_def validation_rules_def validate_field_def
        demo_env_def round_to_def round_half_even_def)
  have look: "map_of [(''WINSPE'', Fin (91 / 2))] ''WINSPE'' = Some (Fin (91 / 2))" by simp
  from validated_keys_are_source_keys [OF run look] run look
  show ?thesis by simp
qed

section \<open>Record Parser\<close>

text \<open>
  Claim C8. On every input \<^verbatim>\<open>parse_data_column\<close> returns a mapping: no exception
  leaves it. When the decoder rejects the cleaned string, and more generally when
  anything inside the \<^verbatim>\<open>try\<close> raises, or when the input is neither a string nor a
  dict, the mapping returned is the empty one.
\<close>

theorem parse_data_column_never_raises:
  "(\<exists>validated_data. parse_data_column env data_str = Inr validated_data) \<and>
   (\<forall>s e. literal_eval env (replace_double_quotes (strip_quotes s)) = Inl e \<longrightarrow>
      parse_data_column env (PyStr s) = Inr []) \<and>
   (\<forall>e. parse_try env data_str = Inl e \<longrightarrow> parse_data_column env data_str = Inr []) \<and>
   ((\<forall>s. data_str \<noteq> PyStr s) \<and> (\<forall>al. data_str \<noteq> PyDict al) \<longrightarrow>
      parse_data_column env data_str = Inr [])"
proof (intro conjI allI impI)
  show "\<exists>validated_data. parse_data_column env data_str = Inr validated_data"
    by (cases "parse_try env data_str") (simp_all add: parse_data_column_def)
next
  fix s e
  assume "literal_eval env (replace_double_quotes (strip_quotes s)) = Inl e"
  then have "parse_try env (PyStr s) = Inl e" by simp
  then show "parse_data_column env (PyStr s) = Inr []"
    by (simp add: parse_data_column_def)
next
  fix e
  assume "parse_try env data_str = Inl e"
  then show "parse_data_column env data_str = Inr []"
    by (simp add: parse_data_column_def)
next
  assume "(\<forall>s. data_str \<noteq> PyStr s) \<and> (\<forall>al. data_str \<noteq> PyDict al)"
  then have "parse_try env data_str = Inr []" by (cases data_str) simp_all
  then show "parse_data_column env data_str = Inr []"
    by (simp add: parse_data_column_def)
qed

theorem parse_data_column_never_raises_witness:
  "literal_eval demo_env (replace_double_quotes (strip_quotes ''{'LAT': '')) = Inl SyntaxError \<and>
   parse_data_column demo_env (PyStr ''{'LAT': '') = Inr [] \<and>
   parse_try demo_env (PyStr ''17'') = Inl TypeError \<and>
   parse_data_column demo_env (PyStr ''17'') = Inr [] \<and>
   parse_data_column demo_env (PyInt 17) = Inr []"
proof -
  have bad: "literal_eval demo_env (replace_double_quotes (strip_quotes ''{'LAT': ''))
      = Inl SyntaxError"
    by (simp add: demo_env_def strip_quotes_def)
  have num: "parse_try demo_env (PyStr ''17'') = Inl TypeError"
    by (simp add: demo_env_def strip_quotes_def validate_parsed_def validate_sensor_data_def
        validation_rules_def validate_field_def)
  have other: "(\<forall>s. PyInt 17 \<noteq> PyStr s) \<and> (\<forall>al. PyInt 17 \<noteq> PyDict al)" by simp
  note never = parse_data_column_never_raises [of demo_env]
  from never [of "PyInt 17"] bad have "parse_data_column demo_env (PyStr ''{'LAT': '') = Inr []"
    by blast
  moreover from never [of "PyStr ''17''"] num have "parse_data_column demo_env (PyStr ''17'') = Inr []"
    by blast
  moreover from never [of "PyInt 17"] other have "parse_data_column demo_env (PyInt 17) = Inr []"
    by blast
  ultimately show ?thesis using bad num by simp
qed

section \<open>File Processor\<close>

lemma process_rows_count:
  "process_rows env source_name rows (ps, v, e) = (ps', v', e') \<Longrightarrow>
   length ps' + v' + e' = length rows + (length ps + v + e)"
proof (induction rows arbitrary: ps v e)
  case Nil
  then show ?case by simp
next
  case (Cons r rows)
  show ?case
  proof (cases "process_row_try env source_name r")
    case (Inl err)
    with Cons.prems have "process_rows env source_name rows (ps, v, e + 1) = (ps', v', e')"
      by simp
    from Cons.IH [OF this] show ?thesis by simp
  next
    case (Inr res)
    show ?thesis
    proof (cases res)
      case None
      with Inr Cons.prems have "process_rows env source_name rows (ps, v + 1, e) = (ps', v', e')"
        by simp
      from Cons.IH [OF this] show ?thesis by simp
    next
      case (Some pr)
      with Inr Cons.prems have "process_rows env source_name rows (ps @ [pr], v, e) = (ps', v', e')"
        by simp
      from Cons.IH [OF this] show ?thesis by simp
    qed
  qed
qed

text \<open>
  Claim C10. For a file whose sheet is read, every row is counted once: the number of
  rows is the number of processed rows returned plus the validation errors plus the
  processing errors of the statistics.
\<close>

theorem every_row_accounted_once:
  assumes "stat_size f = Inr sz" and "data_sheet f = Inr df"
  shows "\<exists>frame validation_errors processing_errors.
           process_xlsx_file env f = Inr frame \<and>
           file_statistics env (file_name f) df
             = (length df, length frame, validation_errors, processing_errors) \<and>
           length df = length frame + validation_errors + processing_errors"
proof -
  obtain ps v e where run: "process_rows env (file_name f) df ([], 0, 0) = (ps, v, e)"
    by (cases "process_rows env (file_name f) df ([], 0, 0)") auto
  from process_rows_count [OF run] have "length df = length ps + v + e" by simp
  moreover from assms run have "process_xlsx_file env f = Inr (to_dataframe ps)"
    by (simp add: process_xlsx_file_def)
  moreover have "length (to_dataframe ps) = length ps"
    by (simp add: to_dataframe_def)
  moreover from run have "file_statistics env (file_name f) df = (length df, length ps, v, e)"
    by (simp add: file_statistics_def)
  ultimately show ?thesis by (metis (no_types))
qed


theorem every_row_accounted_once_witness:
  "stat_size demo_file = Inr 4096 \<and> data_sheet demo_file = Inr demo_sheet \<and>
   file_statistics demo_env (file_name demo_file) demo_sheet = (3, 1, 2, 0) \<and>
   (\<exists>frame validation_errors processing_errors.
      process_xlsx_file demo_env demo_file = Inr frame \<and>
      file_statistics demo_env (file_name demo_file) demo_sheet
        = (length demo_sheet, length frame, validation_errors, processing_errors) \<and>
      length demo_sheet = length frame + validation_errors + processing_errors)"
proof -
  have st: "stat_size demo_file = Inr 4096" by (simp add: demo_file_def)
  have sh: "data_sheet demo_file = Inr demo_sheet" by (simp add: demo_file_def)
  have "file_statistics demo_env (file_name demo_file) demo_sheet = (3, 1, 2, 0)"
    by code_simp
  with every_row_accounted_once [OF st sh, of demo_env] st sh show ?thesis by simp
qed

section \<open>The connection without faults\<close>

lemma not_faulty: "faults c = [] \<Longrightarrow> \<not> faulty c"
  by (simp add: faulty_def)

lemma find_ship: "find (\<lambda>s. s = x) xs = (if x \<in> set xs then Some x else None)"
  by (induction xs) auto

lemma get_or_create_ship_id_quiet:
  assumes "faults c = []" and "\<not> aborted c"
  obtains c' where
    "get_or_create_ship_id c ship_id = (Inr ship_id, c')"
    "faults c' = []" "\<not> aborted c'"
    "d_ship (tables c') =
       (if ship_id \<in> set (d_ship (tables c)) then d_ship (tables c)
        else d_ship (tables c) @ [ship_id])"
    "d_calendar (tables c') = d_calendar (tables c)"
    "f_data (tables c') = f_data (tables c)"
  using assms
  by (cases "ship_id \<in> set (d_ship (tables c))")
     (simp_all add: get_or_create_ship_id_def get_db_cursor_def open_cursor_def execute_def
       commit_def select_ship_def insert_ship_def faulty_def tick_def find_ship)

lemma consistent_no_key:
  assumes "calendar_consistent t" and "find (same_minute ts) (d_calendar t) = None"
  shows "ts \<notin> cal_datetime_id ` set (d_calendar t)"
proof
  assume "ts \<in> cal_datetime_id ` set (d_calendar t)"
  then obtain r where r: "r \<in> set (d_calendar t)" "cal_datetime_id r = ts" by auto
  with assms(1) have "same_minute ts r"
    by (auto simp: calendar_consistent_def list_all_iff)
  with r(1) assms(2) show False by (auto simp: find_None_iff)
qed

lemma same_minute_new_row: "same_minute ts (new_calendar_row ts)"
  by (simp add: same_minute_def new_calendar_row_def Let_def)

lemma datetime_id_new_row: "cal_datetime_id (new_calendar_row ts) = ts"
  by (simp add: new_calendar_row_def Let_def)

lemma get_or_create_datetime_id_quiet:
  assumes "faults c = []" and "\<not> aborted c" and "calendar_consistent (tables c)"
  obtains c' where
    "get_or_create_datetime_id c ts =
       (Inr (case find (same_minute ts) (d_calendar (tables c)) of
               Some r \<Rightarrow> cal_datetime_id r | None \<Rightarrow> ts), c')"
    "faults c' = []" "\<not> aborted c'" "calendar_consistent (tables c')"
    "d_calendar (tables c') =
       (case find (same_minute ts) (d_calendar (tables c)) of
          Some r \<Rightarrow> d_calendar (tables c)
        | None \<Rightarrow> d_calendar (tables c) @ [new_calendar_row ts])"
    "d_ship (tables c') = d_ship (tables c)"
    "f_data (tables c') = f_data (tables c)"
proof (cases "find (same_minute ts) (d_calendar (tables c))")
  case None
  with assms(3) have "ts \<notin> cal_datetime_id ` set (d_calendar (tables c))"
    by (rule consistent_no_key)
  with None assms that show ?thesis
    by (simp add: get_or_create_datetime_id_def get_db_cursor_def open_cursor_def execute_def
        commit_def select_calendar_def insert_calendar_def faulty_def tick_def
        calendar_consistent_def same_minute_new_row datetime_id_new_row)
next
  case (Some r)
  with assms that show ?thesis
    by (simp add: get_or_create_datetime_id_def get_db_cursor_def open_cursor_def execute_def
        commit_def select_calendar_def faulty_def tick_def)
qed


section \<open>Dimension Resolver\<close>

lemma filter_distinct_member:
  "distinct xs \<Longrightarrow> x \<in> set xs \<Longrightarrow> length (filter (\<lambda>s. s = x) xs) = 1"
proof (induction xs)
  case Nil
  then show ?case by simp
next
  case (Cons a xs)
  show ?case
  proof (cases "a = x")
    case True
    with Cons.prems have "x \<notin> set xs" by simp
    then have "filter (\<lambda>s. s = x) xs = []" by (auto simp: filter_empty_conv)
    with True show ?thesis by simp
  next
    case False
    with Cons show ?thesis by simp
  qed
qed

text \<open>
  Claim C6. On a connection without faults, to a ship dimension that holds no identifier
  twice (its primary key), two calls of \<^verbatim>\<open>get_or_create_ship_id\<close> in sequence with
  the same identifier both return that identifier; afterwards the dimension holds
  exactly one row for it, and the second call has added nothing.
\<close>

theorem resolve_ship_twice_same_key_one_row:
  assumes "faults c = []" and "\<not> aborted c" and "distinct (d_ship (tables c))"
      and "get_or_create_ship_id c ship_id = (r1, c1)"
      and "get_or_create_ship_id c1 ship_id = (r2, c2)"
  shows "r1 = Inr ship_id \<and> r2 = Inr ship_id \<and>
         length (filter (\<lambda>s. s = ship_id) (d_ship (tables c2))) = 1 \<and>
         d_ship (tables c2) = d_ship (tables c1)"
proof -
  from assms(1,2) obtain c' where first:
    "get_or_create_ship_id c ship_id = (Inr ship_id, c')"
    "faults c' = []" "\<not> aborted c'"
    "d_ship (tables c') =
       (if ship_id \<in> set (d_ship (tables c)) then d_ship (tables c)
        else d_ship (tables c) @ [ship_id])"
    by (rule get_or_create_ship_id_quiet)
  with assms(4) have r1: "r1 = Inr ship_id" and c1: "c1 = c'" by simp_all
  from first(2,3) obtain c'' where second:
    "get_or_create_ship_id c' ship_id = (Inr ship_id, c'')"
    "d_ship (tables c'') =
       (if ship_id \<in> set (d_ship (tables c')) then d_ship (tables c')
        else d_ship (tables c') @ [ship_id])"
    by (rule get_or_create_ship_id_quiet)
  with assms(5) c1 have r2: "r2 = Inr ship_id" and c2: "c2 = c''" by simp_all
  have mem: "ship_id \<in> set (d_ship (tables c'))" using first(4) by simp
  have dist: "distinct (d_ship (tables c'))" using first(4) assms(3) by simp
  have same: "d_ship (tables c'') = d_ship (tables c')" using second(2) mem by simp
  from dist mem have "length (filter (\<lambda>s. s = ship_id) (d_ship (tables c'))) = 1"
    by (rule filter_distinct_member)
  with r1 r2 c1 c2 same show ?thesis by simp
qed

theorem resolve_ship_twice_same_key_one_row_witness:
  "faults (fresh_conn []) = [] \<and> \<not> aborted (fresh_conn []) \<and>
   distinct (d_ship (tables (fresh_conn []))) \<and>
   fst (get_or_create_ship_id (fresh_conn []) ''S1'') = Inr ''S1'' \<and>
   fst (get_or_create_ship_id (snd (get_or_create_ship_id (fresh_conn []) ''S1'')) ''S1'')
     = Inr ''S1'' \<and>
   d_ship (tables (snd (get_or_create_ship_id
     (snd (get_or_create_ship_id (fresh_conn []) ''S1'')) ''S1''))) = [''S1'']"
proof -
  have h: "faults (fresh_conn []) = []" "\<not> aborted (fresh_conn [])"
    "distinct (d_ship (tables (fresh_conn [])))"
    by (simp_all add: fresh_conn_def empty_db_def)
  have "d_ship (tables (snd (get_or_create_ship_id
     (snd (get_or_create_ship_id (fresh_conn []) ''S1'')) ''S1''))) = [''S1'']"
    by code_simp
  with resolve_ship_twice_same_key_one_row [OF h surjective_pairing surjective_pairing, of "''S1''"] h
  show ?thesis by simp
qed

lemma find_append_cases:
  "find P (xs @ ys) = (case find P xs of None \<Rightarrow> find P ys | Some x \<Rightarrow> Some x)"
  by (induction xs) auto

lemma same_minute_iff:
  "same_minute ts r \<longleftrightarrow>
   (cal_year r, cal_month r, cal_day r, cal_hour r, cal_minute r) = calendar_minute ts"
  by (auto simp: same_minute_def calendar_minute_def)

lemma resolved_key_minute:
  assumes "calendar_consistent t"
  shows "calendar_minute (case find (same_minute ts) (d_calendar t) of
                            Some r \<Rightarrow> cal_datetime_id r | None \<Rightarrow> ts) = calendar_minute ts"
proof (cases "find (same_minute ts) (d_calendar t)")
  case None
  then show ?thesis by simp
next
  case (Some r)
  then have "r \<in> set (d_calendar t)" "same_minute ts r"
    by (auto simp: find_Some_iff)
  moreover with assms have "same_minute (cal_datetime_id r) r"
    by (auto simp: calendar_consistent_def list_all_iff)
  ultimately show ?thesis using Some by (simp add: same_minute_iff)
qed

text \<open>
  Claim C5. On a connection without faults, to a calendar whose rows were derived from
  their keys, two calls of \<^verbatim>\<open>get_or_create_datetime_id\<close> in sequence both return a
  key, and the two keys are equal exactly when the two timestamps have the same year,
  month, day, hour and minute.
\<close>

theorem resolve_calendar_same_key_iff_same_minute:
  assumes "faults c = []" and "\<not> aborted c" and "calendar_consistent (tables c)"
      and "get_or_create_datetime_id c t1 = (r1, c1)"
      and "get_or_create_datetime_id c1 t2 = (r2, c2)"
  shows "\<exists>k1 k2. r1 = Inr k1 \<and> r2 = Inr k2 \<and>
           (k1 = k2 \<longleftrightarrow> calendar_minute t1 = calendar_minute t2)"
proof -
  let ?cal = "d_calendar (tables c)"
  let ?k1 = "case find (same_minute t1) ?cal of Some r \<Rightarrow> cal_datetime_id r | None \<Rightarrow> t1"
  from assms(1-3) obtain c' where first:
    "get_or_create_datetime_id c t1 = (Inr ?k1, c')"
    "faults c' = []" "\<not> aborted c'" "calendar_consistent (tables c')"
    "d_calendar (tables c') =
       (case find (same_minute t1) ?cal of
          Some r \<Rightarrow> ?cal | None \<Rightarrow> ?cal @ [new_calendar_row t1])"
    by (rule get_or_create_datetime_id_quiet)
  with assms(4) have r1: "r1 = Inr ?k1" and c1: "c1 = c'" by simp_all
  let ?cal' = "d_calendar (tables c')"
  let ?k2 = "case find (same_minute t2) ?cal' of Some r \<Rightarrow> cal_datetime_id r | None \<Rightarrow> t2"
  from first(2-4) obtain c'' where second:
    "get_or_create_datetime_id c' t2 = (Inr ?k2, c'')"
    by (rule get_or_create_datetime_id_quiet)
  with assms(5) c1 have r2: "r2 = Inr ?k2" by simp
  have m1: "calendar_minute ?k1 = calendar_minute t1"
    using assms(3) by (rule resolved_key_minute)
  have m2: "calendar_minute ?k2 = calendar_minute t2"
    using first(4) by (rule resolved_key_minute)
  have "?k1 = ?k2" if same: "calendar_minute t1 = calendar_minute t2"
  proof -
    from same have eq: "same_minute t2 = same_minute t1"
      by (auto simp: same_minute_iff fun_eq_iff)
    show ?thesis
    proof (cases "find (same_minute t1) ?cal")
      case None
      then show ?thesis
        using first(5) eq
        by (simp add: find_append_cases same_minute_new_row datetime_id_new_row)
    next
      case (Some r)
      then show ?thesis using first(5) eq by simp
    qed
  qed
  moreover have "calendar_minute t1 = calendar_minute t2" if "?k1 = ?k2"
    using that m1 m2 by metis
  ultimately show ?thesis using r1 r2 by blast
qed


theorem resolve_calendar_same_key_iff_same_minute_witness:
  "faults (fresh_conn []) = [] \<and> \<not> aborted (fresh_conn []) \<and>
   calendar_consistent (tables (fresh_conn [])) \<and>
   calendar_minute (demo_ts 15 30) = calendar_minute (demo_ts 15 45) \<and>
   fst (get_or_create_datetime_id (fresh_conn []) (demo_ts 15 30)) = Inr (demo_ts 15 30) \<and>
   fst (get_or_create_datetime_id
          (snd (get_or_create_datetime_id (fresh_conn []) (demo_ts 15 30))) (demo_ts 15 45))
     = Inr (demo_ts 15 30) \<and>
   calendar_minute (demo_ts 15 30) \<noteq> calendar_minute (demo_ts 16 30) \<and>
   fst (get_or_create_datetime_id
          (snd (get_or_create_datetime_id (fresh_conn []) (demo_ts 15 30))) (demo_ts 16 30))
     = Inr (demo_ts 16 30) \<and>
   demo_ts 15 30 \<noteq> demo_ts 16 30"
proof -
  have h: "faults (fresh_conn []) = []" "\<not> aborted (fresh_conn [])"
    "calendar_consistent (tables (fresh_conn []))"
    by (simp_all add: fresh_conn_def empty_db_def calendar_consistent_def)
  have first: "fst (get_or_create_datetime_id (fresh_conn []) (demo_ts 15 30))
      = Inr (demo_ts 15 30)"
    by code_simp
  have far: "fst (get_or_create_datetime_id
          (snd (get_or_create_datetime_id (fresh_conn []) (demo_ts 15 30))) (demo_ts 16 30))
     = Inr (demo_ts 16 30)"
    by code_simp
  have m: "calendar_minute (demo_ts 15 30) = calendar_minute (demo_ts 15 45)"
    "calendar_minute (demo_ts 15 30) \<noteq> calendar_minute (demo_ts 16 30)"
    "demo_ts 15 30 \<noteq> demo_ts 16 30"
    by (simp_all add: calendar_minute_def demo_ts_def)
  from resolve_calendar_same_key_iff_same_minute
         [OF h surjective_pairing surjective_pairing, of "demo_ts 15 30" "demo_ts 15 45"]
       first m(1)
  have "fst (get_or_create_datetime_id
          (snd (get_or_create_datetime_id (fresh_conn []) (demo_ts 15 30))) (demo_ts 15 45))
     = Inr (demo_ts 15 30)"
    by auto
  with h first far m show ?thesis by simp
qed

text \<open>
  Claim C4 (as stated, refuted). The claim says the key returned for a timestamp with
  no calendar row is the timestamp truncated to the minute. On the empty calendar the
  resolver returns 2024-01-06 10:15:30 for 2024-01-06 10:15:30, with its seconds.
\<close>

theorem calendar_key_not_truncated_counterexample:
  "find (same_minute (demo_ts 15 30)) (d_calendar (tables (fresh_conn []))) = None \<and>
   fst (get_or_create_datetime_id (fresh_conn []) (demo_ts 15 30)) = Inr (demo_ts 15 30) \<and>
   spec_truncate_to_minute (demo_ts 15 30) = demo_ts 15 0 \<and>
   demo_ts 15 30 \<noteq> demo_ts 15 0"
  by (simp add: get_or_create_datetime_id_def get_db_cursor_def open_cursor_def execute_def
      commit_def select_calendar_def insert_calendar_def faulty_def tick_def fresh_conn_def
      empty_db_def spec_truncate_to_minute_def demo_ts_def)

text \<open>
  Claim C4 (amended). On a connection without faults, to a calendar whose rows were
  derived from their keys, for a timestamp whose year, month, day, hour and minute match
  no calendar row, \<^verbatim>\<open>get_or_create_datetime_id\<close> appends and commits one calendar row,
  keyed by the timestamp as it was given, with quarter \<open>(month - 1) div 3 + 1\<close>, the ISO
  week number, the day of the week from Monday = 1 to Sunday = 7 and the weekend flag
  true exactly on days 6 and 7, and it returns the timestamp as it was given.
\<close>

theorem resolve_calendar_creates_row:
  assumes "faults c = []" and "\<not> aborted c" and "calendar_consistent (tables c)"
      and "find (same_minute ts) (d_calendar (tables c)) = None"
  shows "\<exists>c'. get_or_create_datetime_id c ts = (Inr ts, c') \<and>
           d_calendar (tables c') = d_calendar (tables c) @ [new_calendar_row ts] \<and>
           saved c' = tables c' \<and>
           cal_datetime_id (new_calendar_row ts) = ts \<and>
           calendar_minute ts = (cal_year (new_calendar_row ts), cal_month (new_calendar_row ts),
             cal_day (new_calendar_row ts), cal_hour (new_calendar_row ts),
             cal_minute (new_calendar_row ts)) \<and>
           cal_quarter (new_calendar_row ts) = (month ts - 1) div 3 + 1 \<and>
           cal_week_of_year (new_calendar_row ts) = fst (snd (isocalendar ts)) \<and>
           cal_day_of_week (new_calendar_row ts) = weekday ts + 1 \<and>
           1 \<le> cal_day_of_week (new_calendar_row ts) \<and>
           cal_day_of_week (new_calendar_row ts) \<le> 7 \<and>
           (cal_is_weekend (new_calendar_row ts) \<longleftrightarrow>
              cal_day_of_week (new_calendar_row ts) \<in> {6, 7})"
proof -
  from assms(3,4) have nokey: "ts \<notin> cal_datetime_id ` set (d_calendar (tables c))"
    by (rule consistent_no_key)
  have run: "\<exists>c'. get_or_create_datetime_id c ts = (Inr ts, c') \<and>
           d_calendar (tables c') = d_calendar (tables c) @ [new_calendar_row ts] \<and>
           saved c' = tables c'"
    using assms(1,2,4) nokey
    by (simp add: get_or_create_datetime_id_def get_db_cursor_def open_cursor_def execute_def
        commit_def select_calendar_def insert_calendar_def faulty_def tick_def
        datetime_id_new_row)
  have dow: "0 \<le> weekday ts" "weekday ts < 7" by (simp_all add: weekday_def)
  have fields: "cal_datetime_id (new_calendar_row ts) = ts"
    "calendar_minute ts = (cal_year (new_calendar_row ts), cal_month (new_calendar_row ts),
             cal_day (new_calendar_row ts), cal_hour (new_calendar_row ts),
             cal_minute (new_calendar_row ts))"
    "cal_quarter (new_calendar_row ts) = (month ts - 1) div 3 + 1"
    "cal_week_of_year (new_calendar_row ts) = fst (snd (isocalendar ts))"
    "cal_day_of_week (new_calendar_row ts) = weekday ts + 1"
    by (simp_all add: new_calendar_row_def calendar_minute_def Let_def)
  have weekend: "cal_is_weekend (new_calendar_row ts) \<longleftrightarrow>
              cal_day_of_week (new_calendar_row ts) \<in> {6, 7}"
    using dow by (auto simp: new_calendar_row_def Let_def)
  from run fields weekend dow show ?thesis by simp
qed

theorem resolve_calendar_creates_row_witness:
  "faults (fresh_conn []) = [] \<and> \<not> aborted (fresh_conn []) \<and>
   calendar_consistent (tables (fresh_conn [])) \<and>
   find (same_minute (demo_ts 15 30)) (d_calendar (tables (fresh_conn []))) = None \<and>
   (\<exists>c'. get_or_create_datetime_id (fresh_conn []) (demo_ts 15 30) = (Inr (demo_ts 15 30), c') \<and>
        d_calendar (tables c') = [new_calendar_row (demo_ts 15 30)] \<and> saved c' = tables c') \<and>
   new_calendar_row (demo_ts 15 30) =
     \<lparr> cal_datetime_id = demo_ts 15 30, cal_date = (2024, 1, 6), cal_year = 2024,
       cal_month = 1, cal_day = 6, cal_hour = 10, cal_minute = 15, cal_quarter = 1,
       cal_week_of_year = 1, cal_day_of_week = 6, cal_is_weekend = True \<rparr>"
proof -
  have h: "faults (fresh_conn []) = []" "\<not> aborted (fresh_conn [])"
    "calendar_consistent (tables (fresh_conn []))"
    "find (same_minute (demo_ts 15 30)) (d_calendar (tables (fresh_conn []))) = None"
    by (simp_all add: fresh_conn_def empty_db_def calendar_consistent_def)
  have cal: "d_calendar (tables (fresh_conn [])) = []"
    by (simp add: fresh_conn_def empty_db_def)
  have row: "new_calendar_row (demo_ts 15 30) =
     \<lparr> cal_datetime_id = demo_ts 15 30, cal_date = (2024, 1, 6), cal_year = 2024,
       cal_month = 1, cal_day = 6, cal_hour = 10, cal_minute = 15, cal_quarter = 1,
       cal_week_of_year = 1, cal_day_of_week = 6, cal_is_weekend = True \<rparr>"
    by code_simp
  from resolve_calendar_creates_row [OF h] cal
  have "\<exists>c'. get_or_create_datetime_id (fresh_conn []) (demo_ts 15 30) = (Inr (demo_ts 15 30), c') \<and>
        d_calendar (tables c') = [new_calendar_row (demo_ts 15 30)] \<and> saved c' = tables c'"
    by auto
  with h row show ?thesis by simp
qed

section \<open>Failures of the Bulk Loader outside the guard of the batch\<close>










section \<open>The bulk insert\<close>

lemma on_conflict_appends:
  "\<exists>new. on_conflict_do_nothing rs tbl = tbl @ new \<and> set new \<subseteq> set rs"
proof (induction rs arbitrary: tbl)
  case Nil
  then show ?case by simp
next
  case (Cons r rs)
  let ?tbl = "if fact_key r \<in> set (map fact_key tbl) then tbl else tbl @ [r]"
  from Cons.IH [of ?tbl] obtain new where
    "on_conflict_do_nothing rs ?tbl = ?tbl @ new" "set new \<subseteq> set rs" by blast
  then show ?case
    by (cases "fact_key r \<in> set (map fact_key tbl)") auto
qed

lemma on_conflict_keeps_keys:
  "set (map fact_key tbl) \<subseteq> set (map fact_key (on_conflict_do_nothing rs tbl))"
  using on_conflict_appends [of rs tbl] by auto

lemma on_conflict_covers:
  "set (map fact_key rs) \<subseteq> set (map fact_key (on_conflict_do_nothing rs tbl))"
proof (induction rs arbitrary: tbl)
  case Nil
  then show ?case by simp
next
  case (Cons r rs)
  let ?tbl = "if fact_key r \<in> set (map fact_key tbl) then tbl else tbl @ [r]"
  have "fact_key r \<in> set (map fact_key ?tbl)" by simp
  then have "fact_key r \<in> set (map fact_key (on_conflict_do_nothing rs ?tbl))"
    using on_conflict_keeps_keys [of ?tbl rs] by blast
  with Cons.IH [of ?tbl] show ?case by simp
qed

lemma on_conflict_nothing_new:
  "set (map fact_key rs) \<subseteq> set (map fact_key tbl) \<Longrightarrow> on_conflict_do_nothing rs tbl = tbl"
  by (induction rs arbitrary: tbl) auto

lemma on_conflict_distinct:
  "distinct (map fact_key tbl) \<Longrightarrow> distinct (map fact_key (on_conflict_do_nothing rs tbl))"
  by (induction rs arbitrary: tbl) auto

section \<open>Tables that grow\<close>

lemma grows_refl: "grows t t"
  by (simp add: grows_def)

lemma grows_trans: "grows t t' \<Longrightarrow> grows t' t'' \<Longrightarrow> grows t t''"
  by (auto simp: grows_def)

lemma find_prefix: "find P xs = Some x \<Longrightarrow> prefix xs ys \<Longrightarrow> find P ys = Some x"
  by (auto simp: prefix_def find_append_cases)

lemma settled_grows:
  assumes "settled env t r" and "grows t t'"
  shows "settled env t' r" and "fact_of env t' r = fact_of env t r"
proof -
  show "settled env t' r"
    using assms
    by (auto simp: settled_def grows_def dest: set_mono_prefix find_prefix
        split: sum.splits option.splits)
  show "fact_of env t' r = fact_of env t r"
    using assms
    by (auto simp: settled_def fact_of_def calendar_key_def grows_def dest: find_prefix
        split: sum.splits option.splits)
qed

lemma fact_count_same:
  "length (List.map_filter (fact_of env t) rows) = length (List.map_filter (fact_of env t') rows)"
  by (induction rows) (auto simp: map_filter_simps fact_of_def split: sum.splits option.splits)

lemma map_filter_same:
  "(\<And>x. x \<in> set xs \<Longrightarrow> f x = g x) \<Longrightarrow> List.map_filter f xs = List.map_filter g xs"
  by (induction xs) (auto simp: map_filter_simps split: option.splits)

lemma absorbed_grows:
  assumes "absorbed env t b" and "grows t t'"
  shows "absorbed env t' b"
proof -
  from assms have s: "\<forall>r\<in>set b. settled env t' r \<and> fact_of env t' r = fact_of env t r"
    by (auto simp: absorbed_def list_all_iff intro: settled_grows)
  then have "List.map_filter (fact_of env t') b = List.map_filter (fact_of env t) b"
    by (intro map_filter_same) simp
  moreover from assms(2) have "set (map fact_key (f_data t)) \<subseteq> set (map fact_key (f_data t'))"
    by (auto simp: grows_def dest: set_mono_prefix)
  ultimately show ?thesis
    using assms(1) s by (auto simp: absorbed_def list_all_iff)
qed


section \<open>Preparing a batch without faults\<close>

lemma tables_eqI:
  "d_ship t = d_ship t' \<Longrightarrow> d_calendar t = d_calendar t' \<Longrightarrow> f_data t = f_data t' \<Longrightarrow>
   t = (t' :: db)"
  by (rule db.equality) simp_all

lemma prepare_row_try_good:
  assumes "good c"
  obtains c' where
    "good c'" "grows (tables c) (tables c')" "f_data (tables c') = f_data (tables c)"
    "settled env (tables c') r"
    "settled env (tables c) r \<longrightarrow> tables c' = tables c"
    "\<forall>rows acc. prepare_loop env (r # rows) acc c =
       prepare_loop env rows
         (acc @ (case fact_of env (tables c') r of None \<Rightarrow> [] | Some x \<Rightarrow> [x])) c'"
proof (cases "to_datetime env (datetime r)")
  case (Inl e)
  with assms that [of c] show ?thesis
    by (simp add: prepare_row_try_def grows_refl settled_def fact_of_def)
next
  case (Inr parsed)
  show ?thesis
  proof (cases parsed)
    case None
    with Inr assms that [of c] show ?thesis
      by (simp add: prepare_row_try_def grows_refl settled_def fact_of_def)
  next
    case (Some ts)
    from assms have q: "faults c = []" "\<not> aborted c" and cc: "calendar_consistent (tables c)"
      by (simp_all add: good_def)
    from q obtain c1 where ship:
      "get_or_create_ship_id c (id_ship r) = (Inr (id_ship r), c1)"
      "faults c1 = []" "\<not> aborted c1"
      "d_ship (tables c1) =
         (if id_ship r \<in> set (d_ship (tables c)) then d_ship (tables c)
          else d_ship (tables c) @ [id_ship r])"
      "d_calendar (tables c1) = d_calendar (tables c)"
      "f_data (tables c1) = f_data (tables c)"
      by (rule get_or_create_ship_id_quiet)
    from cc ship(5) have cc1: "calendar_consistent (tables c1)"
      by (simp add: calendar_consistent_def)
    let ?cal = "d_calendar (tables c1)"
    from ship(2,3) cc1 obtain c2 where cal:
      "get_or_create_datetime_id c1 ts =
         (Inr (case find (same_minute ts) ?cal of
                 Some x \<Rightarrow> cal_datetime_id x | None \<Rightarrow> ts), c2)"
      "faults c2 = []" "\<not> aborted c2" "calendar_consistent (tables c2)"
      "d_calendar (tables c2) =
         (case find (same_minute ts) ?cal of
            Some x \<Rightarrow> ?cal | None \<Rightarrow> ?cal @ [new_calendar_row ts])"
      "d_ship (tables c2) = d_ship (tables c1)"
      "f_data (tables c2) = f_data (tables c1)"
      by (rule get_or_create_datetime_id_quiet)
    have key: "calendar_key (tables c2) ts =
        (case find (same_minute ts) ?cal of Some x \<Rightarrow> cal_datetime_id x | None \<Rightarrow> ts)"
      using cal(5)
      by (simp add: calendar_key_def find_append_cases same_minute_new_row datetime_id_new_row
          split: option.splits)
    have found: "find (same_minute ts) (d_calendar (tables c2)) \<noteq> None"
      using cal(5)
      by (simp add: find_append_cases same_minute_new_row split: option.splits)
    have 1: "good c2" using cal(2-4) by (simp add: good_def)
    have 2: "grows (tables c) (tables c2)"
      using ship(4-6) cal(5-7) by (auto simp: grows_def split: option.splits)
    have 3: "f_data (tables c2) = f_data (tables c)" using ship(6) cal(7) by simp
    have 4: "settled env (tables c2) r"
      using Inr Some ship(4) cal(6) found by (simp add: settled_def)
    have 5: "settled env (tables c) r \<longrightarrow> tables c2 = tables c"
    proof
      assume "settled env (tables c) r"
      with Inr Some have "id_ship r \<in> set (d_ship (tables c))"
        "find (same_minute ts) (d_calendar (tables c)) \<noteq> None"
        by (simp_all add: settled_def)
      with ship(4-6) cal(5-7) show "tables c2 = tables c"
        by (intro tables_eqI) auto
    qed
    have 6: "\<forall>rows acc. prepare_loop env (r # rows) acc c =
       prepare_loop env rows
         (acc @ (case fact_of env (tables c2) r of None \<Rightarrow> [] | Some x \<Rightarrow> [x])) c2"
      using Inr Some ship(1) cal(1) key
      by (simp add: prepare_row_try_def fact_of_def)
    from that [OF 1 2 3 4 5 6] show ?thesis .
  qed
qed

lemma prepare_loop_good:
  assumes "good c"
  shows "\<exists>c'. prepare_loop env rows acc c = (acc @ List.map_filter (fact_of env (tables c')) rows, c') \<and>
           good c' \<and> grows (tables c) (tables c') \<and> f_data (tables c') = f_data (tables c) \<and>
           list_all (settled env (tables c')) rows \<and>
           (list_all (settled env (tables c)) rows \<longrightarrow> tables c' = tables c)"
  using assms
proof (induction rows arbitrary: acc c)
  case Nil
  then show ?case by (simp add: map_filter_simps grows_refl)
next
  case (Cons r rows)
  from Cons.prems obtain c1 where step:
    "good c1" "grows (tables c) (tables c1)" "f_data (tables c1) = f_data (tables c)"
    "settled env (tables c1) r"
    "settled env (tables c) r \<longrightarrow> tables c1 = tables c"
    "\<forall>rows acc. prepare_loop env (r # rows) acc c =
       prepare_loop env rows
         (acc @ (case fact_of env (tables c1) r of None \<Rightarrow> [] | Some x \<Rightarrow> [x])) c1"
    by (rule prepare_row_try_good)
  let ?acc = "acc @ (case fact_of env (tables c1) r of None \<Rightarrow> [] | Some x \<Rightarrow> [x])"
  from Cons.IH [OF step(1), of ?acc] obtain c' where rest:
    "prepare_loop env rows ?acc c1 = (?acc @ List.map_filter (fact_of env (tables c')) rows, c')"
    "good c'" "grows (tables c1) (tables c')" "f_data (tables c') = f_data (tables c1)"
    "list_all (settled env (tables c')) rows"
    "list_all (settled env (tables c1)) rows \<longrightarrow> tables c' = tables c1"
    by blast
  from step(4) rest(3) have later: "settled env (tables c') r"
    "fact_of env (tables c') r = fact_of env (tables c1) r"
    by (rule settled_grows)+
  have "prepare_loop env (r # rows) acc c =
      (acc @ List.map_filter (fact_of env (tables c')) (r # rows), c')"
    using step(6) rest(1) later(2) by (simp add: map_filter_simps split: option.splits)
  moreover have "grows (tables c) (tables c')"
    using step(2) rest(3) by (rule grows_trans)
  moreover have "list_all (settled env (tables c)) (r # rows) \<longrightarrow> tables c' = tables c"
    using step(5) rest(6) by auto
  ultimately show ?case
    using rest(2,4,5) step(3) later(1) by auto
qed

section \<open>Loading a batch without faults\<close>

lemma set_map_filter: "set (List.map_filter f xs) = {y. \<exists>x\<in>set xs. f x = Some y}"
  by (induction xs) (auto simp: map_filter_simps split: option.splits)

lemma fact_references:
  assumes "settled env t r" and "fact_of env t r = Some x"
  shows "references_ok t x"
proof -
  from assms(2) obtain ts where
    ts: "to_datetime env (datetime r) = Inr (Some ts)" and
    x: "x = bulk_record (id_ship r) (calendar_key t ts) r"
    by (auto simp: fact_of_def split: sum.splits option.splits)
  from assms(1) ts have ship: "id_ship r \<in> set (d_ship t)" and
    "find (same_minute ts) (d_calendar t) \<noteq> None"
    by (simp_all add: settled_def)
  then obtain r0 where r0: "find (same_minute ts) (d_calendar t) = Some r0" by blast
  then have "r0 \<in> set (d_calendar t)" by (auto simp: find_Some_iff)
  with r0 ship x show ?thesis
    by (simp add: references_ok_def bulk_record_def calendar_key_def)
qed

lemma insert_committed:
  assumes "faults c = []" and "\<not> aborted c"
      and "list_all (references_ok (tables c))
             (drop (length (f_data (tables c))) (on_conflict_do_nothing bulk (f_data (tables c))))"
      and "bulk \<noteq> []"
  shows "\<exists>c'.
           (case get_db_cursor (\<lambda>c2.
                    case execute (insert_facts bulk) c2 of
                      (Inl e, c3) \<Rightarrow> (Inr None, c3)
                    | (Inr u, c3) \<Rightarrow> (Inr (Some (n + length bulk)), c3)) c of
               (Inl e, c4) \<Rightarrow> ((Some e, n), c4)
             | (Inr None, c4) \<Rightarrow> ((None, n), c4)
             | (Inr (Some m), c4) \<Rightarrow>
                 (case commit c4 of
                    (Inl e, c5) \<Rightarrow> ((Some e, m), c5)
                  | (Inr u, c5) \<Rightarrow> ((None, m), c5)))
           = ((None, n + length bulk), c') \<and>
           faults c' = [] \<and> \<not> aborted c' \<and>
           tables c' = (tables c)\<lparr>f_data := on_conflict_do_nothing bulk (f_data (tables c))\<rparr>"
  using assms
  by (simp add: get_db_cursor_def open_cursor_def execute_def commit_def insert_facts_def
      faulty_def tick_def Let_def)


lemma load_batch_good:
  assumes "good c"
  shows "\<exists>c'. load_batch env b n c =
             ((None, n + length (List.map_filter (fact_of env (tables c')) b)), c') \<and>
           good c' \<and> grows (tables c) (tables c') \<and> absorbed env (tables c') b \<and>
           (facts_unique (tables c) \<longrightarrow> facts_unique (tables c')) \<and>
           (absorbed env (tables c) b \<longrightarrow> tables c' = tables c)"
proof -
  from prepare_loop_good [OF assms, of env b "[]"] obtain c1 where prep:
    "prepare_loop env b [] c = (List.map_filter (fact_of env (tables c1)) b, c1)"
    "good c1" "grows (tables c) (tables c1)" "f_data (tables c1) = f_data (tables c)"
    "list_all (settled env (tables c1)) b"
    "list_all (settled env (tables c)) b \<longrightarrow> tables c1 = tables c"
    by auto
  let ?t1 = "tables c1"
  let ?bulk = "List.map_filter (fact_of env ?t1) b"
  show ?thesis
  proof (cases "?bulk = []")
    case True
    then have "load_batch env b n c = ((None, n + length ?bulk), c1)"
      using prep(1) by (simp add: load_batch_def prepare_bulk_data_def)
    moreover have "absorbed env ?t1 b"
      using prep(5) True by (simp add: absorbed_def)
    moreover have "facts_unique (tables c) \<longrightarrow> facts_unique ?t1"
      using prep(4) by (simp add: facts_unique_def)
    moreover have "absorbed env (tables c) b \<longrightarrow> ?t1 = tables c"
      using prep(6) by (simp add: absorbed_def)
    ultimately show ?thesis using prep(2,3) by blast
  next
    case False
    let ?F = "f_data ?t1"
    let ?tbl = "on_conflict_do_nothing ?bulk ?F"
    let ?t5 = "?t1\<lparr>f_data := ?tbl\<rparr>"
    from on_conflict_appends [of ?bulk ?F] obtain new where
      new: "?tbl = ?F @ new" "set new \<subseteq> set ?bulk" by blast
    have refs: "list_all (references_ok ?t1) (drop (length ?F) ?tbl)"
    proof -
      have "references_ok ?t1 x" if "x \<in> set ?bulk" for x
      proof -
        from that obtain r where "r \<in> set b" "fact_of env ?t1 r = Some x"
          by (auto simp: set_map_filter)
        moreover with prep(5) have "settled env ?t1 r" by (simp add: list_all_iff)
        ultimately show ?thesis by (auto intro: fact_references)
      qed
      with new show ?thesis by (auto simp: list_all_iff)
    qed
    from prep(2) have q: "faults c1 = []" "\<not> aborted c1" "calendar_consistent ?t1"
      by (simp_all add: good_def)
    from insert_committed [OF q(1,2) refs False, of n] obtain c5 where ins:
      "(case get_db_cursor (\<lambda>c2.
                    case execute (insert_facts ?bulk) c2 of
                      (Inl e, c3) \<Rightarrow> (Inr None, c3)
                    | (Inr u, c3) \<Rightarrow> (Inr (Some (n + length ?bulk)), c3)) c1 of
               (Inl e, c4) \<Rightarrow> ((Some e, n), c4)
             | (Inr None, c4) \<Rightarrow> ((None, n), c4)
             | (Inr (Some m), c4) \<Rightarrow>
                 (case commit c4 of
                    (Inl e, c5) \<Rightarrow> ((Some e, m), c5)
                  | (Inr u, c5) \<Rightarrow> ((None, m), c5)))
           = ((None, n + length ?bulk), c5)"
      "faults c5 = []" "\<not> aborted c5" "tables c5 = ?t5"
      by blast
    have run: "load_batch env b n c = ((None, n + length ?bulk), c5)"
      using prep(1) False ins(1) by (simp add: load_batch_def prepare_bulk_data_def)
    have g15: "grows ?t1 ?t5" using new(1) by (simp add: grows_def)
    have same: "fact_of env ?t5 r = fact_of env ?t1 r" "settled env ?t5 r" if "r \<in> set b" for r
    proof -
      from that prep(5) have "settled env ?t1 r" by (simp add: list_all_iff)
      from settled_grows [OF this g15]
      show "fact_of env ?t5 r = fact_of env ?t1 r" "settled env ?t5 r" by simp_all
    qed
    then have bulk5: "List.map_filter (fact_of env ?t5) b = ?bulk"
      by (intro map_filter_same) simp
    have 1: "load_batch env b n c =
        ((None, n + length (List.map_filter (fact_of env (tables c5)) b)), c5)"
      using run bulk5 ins(4) by simp
    have 2: "good c5" using ins(2-4) q(3) by (simp add: good_def calendar_consistent_def)
    have 3: "grows (tables c) (tables c5)"
      using prep(3) g15 ins(4) by (auto intro: grows_trans)
    have 4: "absorbed env (tables c5) b"
      unfolding absorbed_def ins(4) bulk5
      using same(2) on_conflict_covers [of ?bulk ?F] by (auto simp: list_all_iff)
    have 5: "facts_unique (tables c) \<longrightarrow> facts_unique (tables c5)"
      using prep(4) ins(4) on_conflict_distinct [of "f_data (tables c)" ?bulk]
      by (simp add: facts_unique_def)
    have 6: "absorbed env (tables c) b \<longrightarrow> tables c5 = tables c"
    proof
      assume a: "absorbed env (tables c) b"
      with prep(6) have eq: "?t1 = tables c" by (simp add: absorbed_def)
      with a have "set (map fact_key ?bulk) \<subseteq> set (map fact_key ?F)"
        by (auto simp: absorbed_def list_all_iff)
      then have "?tbl = ?F" by (rule on_conflict_nothing_new)
      with ins(4) eq show "tables c5 = tables c" by simp
    qed
    from 1 2 3 4 5 6 show ?thesis by blast
  qed
qed

lemma load_batches_good:
  assumes "good c"
  shows "\<exists>c' n'. load_batches env bs n c = ((None, n'), c') \<and>
           n' = n + sum_list (map (\<lambda>b. length (List.map_filter (fact_of env (tables c)) b)) bs) \<and>
           good c' \<and> grows (tables c) (tables c') \<and>
           list_all (absorbed env (tables c')) bs \<and>
           (facts_unique (tables c) \<longrightarrow> facts_unique (tables c')) \<and>
           (list_all (absorbed env (tables c)) bs \<longrightarrow> tables c' = tables c)"
  using assms
proof (induction bs arbitrary: n c)
  case Nil
  then show ?case by (simp add: grows_refl)
next
  case (Cons b bs)
  from load_batch_good [OF Cons.prems, of env b n] obtain c1 where step:
    "load_batch env b n c =
       ((None, n + length (List.map_filter (fact_of env (tables c1)) b)), c1)"
    "good c1" "grows (tables c) (tables c1)" "absorbed env (tables c1) b"
    "facts_unique (tables c) \<longrightarrow> facts_unique (tables c1)"
    "absorbed env (tables c) b \<longrightarrow> tables c1 = tables c"
    by blast
  let ?n1 = "n + length (List.map_filter (fact_of env (tables c1)) b)"
  from Cons.IH [OF step(2), of ?n1] obtain c' n' where rest:
    "load_batches env bs ?n1 c1 = ((None, n'), c')"
    "n' = ?n1 + sum_list (map (\<lambda>b. length (List.map_filter (fact_of env (tables c1)) b)) bs)"
    "good c'" "grows (tables c1) (tables c')"
    "list_all (absorbed env (tables c')) bs"
    "facts_unique (tables c1) \<longrightarrow> facts_unique (tables c')"
    "list_all (absorbed env (tables c1)) bs \<longrightarrow> tables c' = tables c1"
    by blast
  have cnt: "length (List.map_filter (fact_of env (tables c1)) x) =
             length (List.map_filter (fact_of env (tables c)) x)" for x
    by (rule fact_count_same)
  have 1: "load_batches env (b # bs) n c = ((None, n'), c')"
    using step(1) rest(1) by simp
  have 2: "n' = n + sum_list (map (\<lambda>b. length (List.map_filter (fact_of env (tables c)) b)) (b # bs))"
    using rest(2) by (simp add: cnt)
  have 3: "grows (tables c) (tables c')" using step(3) rest(4) by (rule grows_trans)
  have 4: "list_all (absorbed env (tables c')) (b # bs)"
    using rest(5) absorbed_grows [OF step(4) rest(4)] by simp
  have 5: "facts_unique (tables c) \<longrightarrow> facts_unique (tables c')"
    using step(5) rest(6) by simp
  have 6: "list_all (absorbed env (tables c)) (b # bs) \<longrightarrow> tables c' = tables c"
    using step(6) rest(7) by auto
  from 1 2 3 4 5 6 rest(3) show ?case by blast
qed

section \<open>Loading the same batch twice\<close>

text \<open>
  Claim C3. On a connection without faults, to tables that satisfy the constraint of the
  fact table (no pair of ship key and calendar key twice) and whose calendar rows were
  derived from their keys, loading a frame and then loading the same frame again leaves
  the tables, and so the fact table, as the first load left them. After the first load
  the fact table still holds no pair twice and begins with the rows it held before, so a
  row once inserted is kept; both loads return the same count.
\<close>

theorem bulk_load_twice_is_noop:
  assumes "faults c = []" and "\<not> aborted c"
      and "calendar_consistent (tables c)" and "facts_unique (tables c)"
      and "load_data_to_postgres_bulk env processed_df c = (r1, c1)"
      and "load_data_to_postgres_bulk env processed_df c1 = (r2, c2)"
  shows "f_data (tables c2) = f_data (tables c1) \<and> tables c2 = tables c1 \<and>
         facts_unique (tables c1) \<and> prefix (f_data (tables c)) (f_data (tables c1)) \<and>
         (\<exists>n. r1 = Inr n \<and> r2 = Inr n)"
proof (cases "processed_df = []")
  case True
  with assms show ?thesis by (auto simp: load_data_to_postgres_bulk_def)
next
  case False
  let ?bs = "map (batch_df processed_df) (batch_starts (length processed_df))"
  from assms(1-3) have g: "good c" by (simp add: good_def)
  from load_batches_good [OF g, of env ?bs 0] obtain c' n' where first:
    "load_batches env ?bs 0 c = ((None, n'), c')"
    "n' = 0 + sum_list (map (\<lambda>b. length (List.map_filter (fact_of env (tables c)) b)) ?bs)"
    "good c'" "grows (tables c) (tables c')"
    "list_all (absorbed env (tables c')) ?bs"
    "facts_unique (tables c) \<longrightarrow> facts_unique (tables c')"
    by blast
  from first(1) False assms(5) have r1: "r1 = Inr n'" and c1: "c1 = c'"
    by (simp_all add: load_data_to_postgres_bulk_def)
  from load_batches_good [OF first(3), of env ?bs 0] obtain c'' n'' where second:
    "load_batches env ?bs 0 c' = ((None, n''), c'')"
    "n'' = 0 + sum_list (map (\<lambda>b. length (List.map_filter (fact_of env (tables c')) b)) ?bs)"
    "list_all (absorbed env (tables c')) ?bs \<longrightarrow> tables c'' = tables c'"
    by blast
  from second(1) False assms(6) c1 have r2: "r2 = Inr n''" and c2: "c2 = c''"
    by (simp_all add: load_data_to_postgres_bulk_def)
  have "length (List.map_filter (fact_of env (tables c')) b) =
        length (List.map_filter (fact_of env (tables c)) b)" for b
    by (rule fact_count_same)
  with first(2) second(2) have "n'' = n'" by simp
  moreover from first(5) second(3) have "tables c'' = tables c'" by simp
  moreover from first(4) have "prefix (f_data (tables c)) (f_data (tables c'))"
    by (simp add: grows_def)
  ultimately show ?thesis using r1 r2 c1 c2 first(6) assms(4) by simp
qed

theorem bulk_load_twice_is_noop_witness:
  "faults (fresh_conn []) = [] \<and> \<not> aborted (fresh_conn []) \<and>
   calendar_consistent (tables (fresh_conn [])) \<and> facts_unique (tables (fresh_conn [])) \<and>
   fst (load_data_to_postgres_bulk demo_env demo_frame (fresh_conn [])) = Inr 2 \<and>
   map fact_key (f_data (tables (snd (load_data_to_postgres_bulk demo_env demo_frame
     (fresh_conn []))))) = [(''S1'', demo_ts 15 30)] \<and>
   fst (load_data_to_postgres_bulk demo_env demo_frame
     (snd (load_data_to_postgres_bulk demo_env demo_frame (fresh_conn [])))) = Inr 2 \<and>
   tables (snd (load_data_to_postgres_bulk demo_env demo_frame
     (snd (load_data_to_postgres_bulk demo_env demo_frame (fresh_conn [])))))
     = tables (snd (load_data_to_postgres_bulk demo_env demo_frame (fresh_conn [])))"
proof -
  let ?c1 = "snd (load_data_to_postgres_bulk demo_env demo_frame (fresh_conn []))"
  have h: "faults (fresh_conn []) = []" "\<not> aborted (fresh_conn [])"
    "calendar_consistent (tables (fresh_conn []))" "facts_unique (tables (fresh_conn []))"
    by (simp_all add: fresh_conn_def empty_db_def calendar_consistent_def facts_unique_def)
  have first: "fst (load_data_to_postgres_bulk demo_env demo_frame (fresh_conn [])) = Inr 2"
    by code_simp
  have keys: "map fact_key (f_data (tables ?c1)) = [(''S1'', demo_ts 15 30)]"
    by code_simp
  from bulk_load_twice_is_noop [OF h surjective_pairing surjective_pairing, of demo_env demo_frame]
       first
  have "tables (snd (load_data_to_postgres_bulk demo_env demo_frame ?c1)) = tables ?c1"
    and "fst (load_data_to_postgres_bulk demo_env demo_frame ?c1) = Inr 2"
    by auto
  with h first keys show ?thesis by simp
qed

end
